theory Spec2Isabelle
  imports Complex_Main "HOL-Library.Sublist"
begin

section \<open>Z2Pack: data model\<close>

text \<open>
  The embedding follows \<^verbatim>\<open>src/src/z2pack/__init__.py\<close> (class \<^verbatim>\<open>Z2PackPlane\<close>).
  Python integers are modelled as \<open>int\<close> or \<open>nat\<close>, and every exception the code can
  raise is a value of type \<open>error\<close>. Python floats are modelled as real numbers; the
  arithmetic on the positions of the lines (\<^verbatim>\<open>np.linspace\<close>, the spacing test and the
  midpoint of \<^verbatim>\<open>_check_neighbours\<close>) takes the rounding \<open>fl\<close> of one floating-point
  operation as a parameter, which is \<open>round_double\<close> for the program and the identity for
  exact arithmetic. Printing and pickling have no influence on the values computed and
  are left out.
\<close>

datatype error =
  ValueError | NameError | IndexError | TypeError | ZeroDivisionError
  | AssertionError | RuntimeError

text \<open>Python's \<^verbatim>\<open>x % 1\<close> on a float: the result lies in \<open>[0, 1)\<close>.\<close>

definition mod1 :: "real \<Rightarrow> real" where
  "mod1 x = x - of_int \<lfloor>x\<rfloor>"

text \<open>Python's \<^verbatim>\<open>int(x)\<close> on a float truncates towards zero.\<close>

definition py_int :: "real \<Rightarrow> int" where
  "py_int x = (if 0 \<le> x then \<lfloor>x\<rfloor> else \<lceil>x\<rceil>)"

text \<open>\<^verbatim>\<open>xs[i]\<close> raises \<^verbatim>\<open>IndexError\<close> out of range (indices here are never negative).\<close>

definition py_get :: "'a list \<Rightarrow> nat \<Rightarrow> error + 'a" where
  "py_get xs i = (if i < length xs then Inr (xs ! i) else Inl IndexError)"

text \<open>\<^verbatim>\<open>xs.insert(i, v)\<close>: inserts before position \<open>i\<close>, appends when \<open>i\<close> is past the end.\<close>

definition py_insert :: "'a list \<Rightarrow> nat \<Rightarrow> 'a \<Rightarrow> 'a list" where
  "py_insert xs i v = take i xs @ v # drop i xs"

subsection \<open>Rounding of doubles\<close>

text \<open>
  A Python float is an IEEE 754 binary64 number, and each arithmetic operation returns
  the exact result rounded to the nearest such number, ties to the even significand.
  \<open>round_even\<close> rounds a real number to the nearest integer, ties to even;
  \<open>round_double\<close> rounds to 53 significant bits. The exponent is not bounded: overflow
  and subnormal numbers do not occur for the positions, which lie between 0 and 1.
\<close>

definition round_even :: "real \<Rightarrow> int" where
  "round_even y =
     (if y - of_int \<lfloor>y\<rfloor> < 1 / 2 then \<lfloor>y\<rfloor>
      else if 1 / 2 < y - of_int \<lfloor>y\<rfloor> then \<lfloor>y\<rfloor> + 1
      else if even \<lfloor>y\<rfloor> then \<lfloor>y\<rfloor> else \<lfloor>y\<rfloor> + 1)"

definition round_double :: "real \<Rightarrow> real" where
  "round_double x =
     (if x = 0 then 0
      else of_int (round_even (x / 2 powr (of_int \<lfloor>log 2 \<bar>x\<bar>\<rfloor> - 52)))
             * 2 powr (of_int \<lfloor>log 2 \<bar>x\<bar>\<rfloor> - 52))"


subsection \<open>Gap finder\<close>

text \<open>
  \<^verbatim>\<open>_gapfind\<close>, lines 412-429. The \<^verbatim>\<open>for\<close> loop over \<^verbatim>\<open>range(0, N - 1)\<close> carries
  \<^verbatim>\<open>(gapsize, gappos)\<close>; \<open>x\<close> is the sorted list.
\<close>

fun gapfind_loop :: "real list \<Rightarrow> nat list \<Rightarrow> real \<times> nat \<Rightarrow> real \<times> nat" where
  "gapfind_loop x [] acc = acc"
| "gapfind_loop x (i # is) (gapsize, gappos) =
     (let temp = x ! (i + 1) - x ! i
      in if temp > gapsize then gapfind_loop x is (temp, i)
         else gapfind_loop x is (gapsize, gappos))"

definition gapfind :: "real list \<Rightarrow> error + real" where
  "gapfind xs =
     (let x = sort xs;
          N = length x;
          (gapsize, gappos) = gapfind_loop x [0..<N - 1] (0, 0)
      in if N = 0 then Inl IndexError
         else
           let temp = x ! 0 - x ! (N - 1) + 1;
               (gapsize, gappos) = (if temp > gapsize then (temp, N - 1) else (gapsize, gappos))
           in Inr (mod1 (x ! gappos + gapsize / 2)))"

text \<open>The width of the \<open>k\<close>-th gap of a sorted list, the last one being the wrap-around gap.\<close>

definition gap_width :: "real list \<Rightarrow> nat \<Rightarrow> real" where
  "gap_width x k = (if k < length x - 1 then x ! (k + 1) - x ! k else x ! 0 - x ! (length x - 1) + 1)"

subsection \<open>Configuration and state of a plane\<close>

text \<open>The keyword arguments of \<^verbatim>\<open>wcc_calc\<close> (lines 119-127) and their defaults (lines 81-91).\<close>

record config =
  no_iter :: bool
  no_neighbour_check :: bool
  wcc_tol :: real
  gap_tol :: real
  max_iter :: int
  min_neighbour_dist :: real
  use_pickle :: bool
  num_strings :: int
  verbose :: bool

definition defaults :: config where
  "defaults = \<lparr> no_iter = False, no_neighbour_check = False, wcc_tol = 1 / 100,
     gap_tol = 2 / 100, max_iter = 10, min_neighbour_dist = 1 / 100, use_pickle = True,
     num_strings = 11, verbose = True \<rparr>"

text \<open>
  The five parallel lists that \<^verbatim>\<open>wcc_calc\<close> keeps on the object (lines 147-151).
  A gap is \<^verbatim>\<open>None\<close> until its line is solved.
\<close>

record plane_state =
  k_points :: "real list"
  gaps :: "real option list"
  wcc_list :: "real list list"
  neighbour_check :: "bool list"
  string_status :: "bool list"

subsection \<open>Neighbour check of one pair\<close>

text \<open>\<^verbatim>\<open>_check_single_direction\<close>, lines 250-257, with \<open>tol\<close> for \<^verbatim>\<open>self._gap_tol\<close>.\<close>

fun check_single_direction :: "real \<Rightarrow> real list \<Rightarrow> real option \<Rightarrow> error + bool" where
  "check_single_direction tol [] gap = Inr True"
| "check_single_direction tol (wcc_val # wcc) gap =
     (case gap of
        None \<Rightarrow> Inl TypeError
      | Some g \<Rightarrow>
          if min (mod1 \<bar>1 + wcc_val - g\<bar>) (mod1 \<bar>1 - g + wcc_val\<bar>) < tol then Inr False
          else check_single_direction tol wcc gap)"

text \<open>\<^verbatim>\<open>_check_single_neighbour\<close>, lines 242-248.\<close>

definition check_single_neighbour :: "config \<Rightarrow> plane_state \<Rightarrow> nat \<Rightarrow> nat \<Rightarrow> error + bool" where
  "check_single_neighbour cfg s i j =
     (case py_get (wcc_list s) j of
        Inl e \<Rightarrow> Inl e
      | Inr wcc \<Rightarrow>
          (case py_get (gaps s) i of
             Inl e \<Rightarrow> Inl e
           | Inr gap \<Rightarrow> check_single_direction (gap_tol cfg) wcc gap))"

text \<open>The circular distance on \<open>[0, 1)\<close> between a gap \<open>g\<close> and a WCC \<open>w\<close>.\<close>

definition circ_dist :: "real \<Rightarrow> real \<Rightarrow> real" where
  "circ_dist g w = min (mod1 (w - g)) (mod1 (g - w))"

subsection \<open>Convergence metric\<close>

text \<open>
  \<^verbatim>\<open>_convsum\<close>, lines 388-410, with the default \<^verbatim>\<open>N0 = 7\<close>. \<open>triangle\<close> is the body of
  one \<^verbatim>\<open>for x in list\<close> iteration: the two inner loops over \<^verbatim>\<open>range(0, N0)\<close> and
  \<^verbatim>\<open>range(1, N0)\<close>; \<open>op\<close> is \<open>(+)\<close> for \<^verbatim>\<open>listA\<close> and \<open>(-)\<close> for \<^verbatim>\<open>listB\<close>.
  The division \<^verbatim>\<open>i/N0\<close> is Python 3's true division. \<^verbatim>\<open>1/(2 * epsilon)\<close> raises
  \<^verbatim>\<open>ZeroDivisionError\<close> for \<open>epsilon = 0\<close>, \<^verbatim>\<open>np.zeros\<close> raises \<^verbatim>\<open>ValueError\<close> for a negative
  size, and \<^verbatim>\<open>% N\<close> raises \<^verbatim>\<open>ZeroDivisionError\<close> for \<open>N = 0\<close>.
\<close>

definition N0 :: nat where
  "N0 = 7"

definition triangle :: "(real \<Rightarrow> real \<Rightarrow> real) \<Rightarrow> int \<Rightarrow> int \<Rightarrow> real list \<Rightarrow> real list" where
  "triangle op N index val =
     (let val1 = fold (\<lambda>i v. v[nat ((index - int i) mod N) :=
                         op (v ! nat ((index - int i) mod N)) (1 - real i / real N0)]) [0..<N0] val
      in fold (\<lambda>i v. v[nat ((index + int i) mod N) :=
                         op (v ! nat ((index + int i) mod N)) (1 - real i / real N0)]) [1..<N0] val1)"

fun deposit :: "(real \<Rightarrow> real \<Rightarrow> real) \<Rightarrow> int \<Rightarrow> real list \<Rightarrow> real list \<Rightarrow> error + real list" where
  "deposit op N [] val = Inr val"
| "deposit op N (x # xs) val =
     (if N = 0 then Inl ZeroDivisionError
      else deposit op N xs (triangle op N (py_int (of_int N * x)) val))"

definition convsum :: "real list \<Rightarrow> real list \<Rightarrow> real \<Rightarrow> error + real" where
  "convsum listA listB epsilon =
     (if 2 * epsilon = 0 then Inl ZeroDivisionError
      else
        let N = int N0 * py_int (1 / (2 * epsilon))
        in if N < 0 then Inl ValueError
           else
             (case deposit (+) N listA (replicate (nat N) 0) of
                Inl e \<Rightarrow> Inl e
              | Inr val \<Rightarrow>
                  (case deposit (-) N listB val of
                     Inl e \<Rightarrow> Inl e
                   | Inr val' \<Rightarrow> Inr (sum_list (map abs val') / real N0))))"

text \<open>\<^verbatim>\<open>_convcheck\<close>, lines 373-386.\<close>

definition convcheck :: "config \<Rightarrow> real list \<Rightarrow> real list \<Rightarrow> error + bool" where
  "convcheck cfg x y =
     (if length x \<noteq> length y then Inr False
      else
        (case convsum x y (wcc_tol cfg) of
           Inl e \<Rightarrow> Inl e
         | Inr v \<Rightarrow> Inr (v < 1)))"

subsection \<open>Line solver\<close>

text \<open>
  \<^verbatim>\<open>_getwcc\<close>, lines 280-330. The overlap provider and the numerical linear algebra are
  external: \<open>f kx N\<close> stands for \<^verbatim>\<open>self._trywcc(self._M_handle(kx, N))\<close> and yields the
  WCC list and the smallest singular value. The loop returns its local variables
  \<^verbatim>\<open>x\<close>, \<^verbatim>\<open>xold\<close>, \<^verbatim>\<open>niter\<close> at the \<^verbatim>\<open>break\<close>, and which of the two breaks was taken.
\<close>

datatype outcome = Finished | FailedToConverge

definition next_N :: "nat \<Rightarrow> real \<Rightarrow> nat \<Rightarrow> nat" where
  "next_N niter min_sv N = (if niter mod 2 = 1 \<and> min_sv < 1 / 2 then N + 4 else N + 2)"

function getwcc_iter ::
  "(real \<Rightarrow> nat \<Rightarrow> real list \<times> real) \<Rightarrow> config \<Rightarrow> real \<Rightarrow> nat \<Rightarrow> nat \<Rightarrow> real list \<Rightarrow> real
    \<Rightarrow> error + (real list \<times> real list \<times> nat \<times> outcome)" where
  "getwcc_iter f cfg kx N niter x min_sv =
     (case convcheck cfg (fst (f kx (next_N niter min_sv N))) x of
        Inl e \<Rightarrow> Inl e
      | Inr c \<Rightarrow>
          if c then Inr (fst (f kx (next_N niter min_sv N)), x, niter + 1, Finished)
          else if int (niter + 1) > max_iter cfg
            then Inr (fst (f kx (next_N niter min_sv N)), x, niter + 1, FailedToConverge)
          else getwcc_iter f cfg kx (next_N niter min_sv N) (niter + 1)
                 (fst (f kx (next_N niter min_sv N))) (snd (f kx (next_N niter min_sv N))))"
  by pat_completeness auto
termination
  by (relation "measure (\<lambda>(f, cfg, kx, N, niter, x, min_sv). nat (max_iter cfg - int niter))") auto

declare getwcc_iter.simps [simp del]

definition getwcc :: "(real \<Rightarrow> nat \<Rightarrow> real list \<times> real) \<Rightarrow> config \<Rightarrow> real \<Rightarrow> error + real list" where
  "getwcc f cfg kx =
     (if no_iter cfg then Inr (sort (fst (f kx 8)))
      else
        (case getwcc_iter f cfg kx 8 0 (fst (f kx 8)) (snd (f kx 8)) of
           Inl e \<Rightarrow> Inl e
         | Inr r \<Rightarrow> Inr (sort (fst r))))"

text \<open>
  The trace of the loop: \<open>refine_step\<close> is the update of \<^verbatim>\<open>N\<close>, \<^verbatim>\<open>x\<close> and \<^verbatim>\<open>min_sv\<close> in one
  iteration (lines 307-316), \<open>refined\<close> the state after \<open>k\<close> further iterations and
  \<open>wcc_after\<close> its WCC list. \<open>stops_after\<close> says that the check of line 320 and the cap of
  line 325 let the first \<open>k\<close> iterations go on, and which of the two ends the next one.
\<close>

definition refine_step ::
  "(real \<Rightarrow> nat \<Rightarrow> real list \<times> real) \<Rightarrow> real \<Rightarrow> nat \<Rightarrow> nat \<times> real list \<times> real
    \<Rightarrow> nat \<times> real list \<times> real" where
  "refine_step f kx niter st =
     (case st of (N, x, min_sv) \<Rightarrow> (next_N niter min_sv N, f kx (next_N niter min_sv N)))"

fun refined ::
  "(real \<Rightarrow> nat \<Rightarrow> real list \<times> real) \<Rightarrow> real \<Rightarrow> nat \<Rightarrow> nat \<times> real list \<times> real \<Rightarrow> nat
    \<Rightarrow> nat \<times> real list \<times> real" where
  "refined f kx niter st 0 = st"
| "refined f kx niter st (Suc k) = refined f kx (niter + 1) (refine_step f kx niter st) k"

definition wcc_after ::
  "(real \<Rightarrow> nat \<Rightarrow> real list \<times> real) \<Rightarrow> real \<Rightarrow> nat \<Rightarrow> nat \<times> real list \<times> real \<Rightarrow> nat
    \<Rightarrow> real list" where
  "wcc_after f kx niter st k = fst (snd (refined f kx niter st k))"

definition stops_after ::
  "(real \<Rightarrow> nat \<Rightarrow> real list \<times> real) \<Rightarrow> config \<Rightarrow> real \<Rightarrow> nat \<Rightarrow> nat \<times> real list \<times> real \<Rightarrow> nat
    \<Rightarrow> outcome \<Rightarrow> bool" where
  "stops_after f cfg kx niter st k oc \<longleftrightarrow>
     (\<forall>j<k. convcheck cfg (wcc_after f kx niter st (j + 1)) (wcc_after f kx niter st j) = Inr False
          \<and> int (niter + j + 1) \<le> max_iter cfg)
     \<and> (oc = Finished
           \<and> convcheck cfg (wcc_after f kx niter st (k + 1)) (wcc_after f kx niter st k) = Inr True
         \<or> oc = FailedToConverge
           \<and> convcheck cfg (wcc_after f kx niter st (k + 1)) (wcc_after f kx niter st k) = Inr False
           \<and> max_iter cfg < int (niter + k + 1))"

subsection \<open>Surface convergence engine\<close>

text \<open>
  The body of the \<^verbatim>\<open>for i, kx in enumerate(self._k_points)\<close> loop, lines 160-164:
  an unsolved line gets its WCC, its gap and its status.
\<close>

definition solve_line ::
  "(real \<Rightarrow> nat \<Rightarrow> real list \<times> real) \<Rightarrow> config \<Rightarrow> plane_state \<Rightarrow> nat \<Rightarrow> error + plane_state" where
  "solve_line f cfg s i =
     (case py_get (string_status s) i of
        Inl e \<Rightarrow> Inl e
      | Inr solved \<Rightarrow>
          if solved then Inr s
          else
            (case getwcc f cfg (k_points s ! i) of
               Inl e \<Rightarrow> Inl e
             | Inr wcc \<Rightarrow>
                 if length (wcc_list s) \<le> i then Inl IndexError
                 else
                   (case gapfind wcc of
                      Inl e \<Rightarrow> Inl e
                    | Inr g \<Rightarrow>
                        if length (gaps s) \<le> i then Inl IndexError
                        else Inr (s\<lparr> wcc_list := (wcc_list s)[i := wcc],
                                    gaps := (gaps s)[i := Some g],
                                    string_status := (string_status s)[i := True] \<rparr>))))"

fun solve_lines ::
  "(real \<Rightarrow> nat \<Rightarrow> real list \<times> real) \<Rightarrow> config \<Rightarrow> nat list \<Rightarrow> plane_state \<Rightarrow> error + plane_state" where
  "solve_lines f cfg [] s = Inr s"
| "solve_lines f cfg (i # is) s =
     (case solve_line f cfg s i of
        Inl e \<Rightarrow> Inl e
      | Inr s' \<Rightarrow> solve_lines f cfg is s')"

definition solve_pass ::
  "(real \<Rightarrow> nat \<Rightarrow> real list \<times> real) \<Rightarrow> config \<Rightarrow> plane_state \<Rightarrow> error + plane_state" where
  "solve_pass f cfg s = solve_lines f cfg [0..<length (k_points s)] s"

text \<open>The five insertions and the four assertions of lines 227-236.\<close>

definition insert_line :: "plane_state \<Rightarrow> nat \<Rightarrow> real \<Rightarrow> plane_state" where
  "insert_line s i k =
     s\<lparr> neighbour_check := py_insert (neighbour_check s) (i + 1) False,
        string_status := py_insert (string_status s) (i + 1) False,
        k_points := py_insert (k_points s) (i + 1) k,
        wcc_list := py_insert (wcc_list s) (i + 1) [],
        gaps := py_insert (gaps s) (i + 1) None \<rparr>"

definition lengths_asserted :: "plane_state \<Rightarrow> bool" where
  "lengths_asserted s \<longleftrightarrow>
     length (k_points s) = length (wcc_list s) \<and>
     int (length (k_points s)) - 1 = int (length (neighbour_check s)) \<and>
     length (k_points s) = length (string_status s) \<and>
     length (k_points s) = length (gaps s)"

text \<open>
  \<^verbatim>\<open>_check_neighbours\<close>, lines 198-240: the loop over \<^verbatim>\<open>enumerate(self._neighbour_check)\<close>
  from index \<open>i\<close> on. The result is the state and the Boolean returned. The subtraction
  of line 217 and the addition and the division of line 229 are rounded.
\<close>

function check_neighbours_from ::
  "(real \<Rightarrow> real) \<Rightarrow> config \<Rightarrow> plane_state \<Rightarrow> nat \<Rightarrow> error + (plane_state \<times> bool)" where
  "check_neighbours_from fl cfg s i =
     (if length (neighbour_check s) \<le> i then Inr (s, True)
      else if neighbour_check s ! i then check_neighbours_from fl cfg s (i + 1)
      else
        (case py_get (string_status s) i of
           Inl e \<Rightarrow> Inl e
         | Inr left \<Rightarrow>
             (case (if left then py_get (string_status s) (i + 1) else Inr False) of
                Inl e \<Rightarrow> Inl e
              | Inr both \<Rightarrow>
                  if both then
                    (case check_single_neighbour cfg s i (i + 1) of
                       Inl e \<Rightarrow> Inl e
                     | Inr ok \<Rightarrow>
                         if ok then
                           check_neighbours_from fl cfg
                             (s\<lparr> neighbour_check := (neighbour_check s)[i := True] \<rparr>) (i + 1)
                         else
                           (case py_get (k_points s) (i + 1) of
                              Inl e \<Rightarrow> Inl e
                            | Inr k1 \<Rightarrow>
                                (case py_get (k_points s) i of
                                   Inl e \<Rightarrow> Inl e
                                 | Inr k0 \<Rightarrow>
                                     if fl (k1 - k0) < min_neighbour_dist cfg then
                                       check_neighbours_from fl cfg
                                         (s\<lparr> neighbour_check := (neighbour_check s)[i := True] \<rparr>) (i + 1)
                                     else if lengths_asserted (insert_line s i (fl (fl (k0 + k1) / 2)))
                                       then Inr (insert_line s i (fl (fl (k0 + k1) / 2)), False)
                                     else Inl AssertionError)))
                  else Inr (s, False))))"
  by pat_completeness auto
termination
  by (relation "measure (\<lambda>(fl, cfg, s, i). length (neighbour_check s) - i)") auto

declare check_neighbours_from.simps [simp del]

definition check_neighbours ::
  "(real \<Rightarrow> real) \<Rightarrow> config \<Rightarrow> plane_state \<Rightarrow> error + (plane_state \<times> bool)" where
  "check_neighbours fl cfg s = check_neighbours_from fl cfg s 0"

text \<open>
  \<^verbatim>\<open>np.linspace(start, stop, num, endpoint = True)\<close>: numpy computes
  \<^verbatim>\<open>step = (stop - start) / (num - 1)\<close> and \<^verbatim>\<open>y = arange(0, num) * step + start\<close>, and
  then sets the last element to \<^verbatim>\<open>stop\<close>.
\<close>

definition linspace :: "(real \<Rightarrow> real) \<Rightarrow> real \<Rightarrow> real \<Rightarrow> nat \<Rightarrow> real list" where
  "linspace fl start stop num =
     (if num = 0 then []
      else if num = 1 then [start]
      else map (\<lambda>i. fl (fl (real i * fl (fl (stop - start) / real (num - 1))) + start))
             [0..<num - 1] @ [stop])"

text \<open>The initialisation of lines 147-151.\<close>

definition init_state :: "(real \<Rightarrow> real) \<Rightarrow> config \<Rightarrow> plane_state" where
  "init_state fl cfg =
     \<lparr> k_points = linspace fl 0 (1 / 2) (nat (num_strings cfg)),
       gaps = replicate (nat (num_strings cfg)) None,
       wcc_list = replicate (nat (num_strings cfg)) [],
       neighbour_check = replicate (nat (num_strings cfg - 1)) False,
       string_status = replicate (nat (num_strings cfg)) False \<rparr>"

text \<open>
  The \<^verbatim>\<open>while not (all(self._neighbour_check))\<close> loop, lines 158-171. The loop may run
  forever, so the result is an option: \<open>None\<close> when it does not return.
\<close>

partial_function (option) wcc_loop ::
  "(real \<Rightarrow> real) \<Rightarrow> (real \<Rightarrow> nat \<Rightarrow> real list \<times> real) \<Rightarrow> config \<Rightarrow> plane_state \<Rightarrow> (error + plane_state) option" where
  "wcc_loop fl f cfg s =
     (if list_all (\<lambda>b. b) (neighbour_check s) then Some (Inr s)
      else
        (case solve_pass f cfg s of
           Inl e \<Rightarrow> Some (Inl e)
         | Inr s1 \<Rightarrow>
             if \<not> no_neighbour_check cfg then
               (case check_neighbours fl cfg s1 of
                  Inl e \<Rightarrow> Some (Inl e)
                | Inr r \<Rightarrow> wcc_loop fl f cfg (fst r))
             else if verbose cfg then Some (Inr s1)
             else wcc_loop fl f cfg s1))"

declare wcc_loop.simps [code]

text \<open>
  The names bound at module level: by the \<^verbatim>\<open>import\<close> statements of lines 8-18, by the
  two \<^verbatim>\<open>class\<close> statements and by the imports of lines 503-504. A name that is neither
  among them nor a builtin raises \<^verbatim>\<open>NameError\<close> when it is used.
\<close>

definition module_names :: "string list" where
  "module_names = [''print_function'', ''string_tools'', ''sys'', ''time'', ''copy'', ''pickle'',
     ''np'', ''la'', ''plt'', ''Z2PackSystem'', ''Z2PackPlane'', ''fp'', ''tb'']"

text \<open>
  \<^verbatim>\<open>wcc_calc\<close>, lines 94-191. The result is the state of the object at the \<^verbatim>\<open>return\<close>;
  the tuple returned is made of its fields \<open>k_points\<close>, \<open>wcc_list\<close> and \<open>gaps\<close>.
\<close>

definition wcc_calc ::
  "(real \<Rightarrow> real) \<Rightarrow> (real \<Rightarrow> nat \<Rightarrow> real list \<times> real) \<Rightarrow> config \<Rightarrow> (error + plane_state) option" where
  "wcc_calc fl f cfg =
     (if num_strings cfg < 2 then Some (Inl ValueError)
      else if num_strings cfg < 8 \<and> ''warnings'' \<notin> set module_names then Some (Inl NameError)
      else wcc_loop fl f cfg (init_state fl cfg))"

subsection \<open>Invariant calculator\<close>

text \<open>\<^verbatim>\<open>np.copysign(1, v)\<close> on a real number: zero has the positive sign.\<close>

definition copysign1 :: "real \<Rightarrow> real" where
  "copysign1 v = (if v < 0 then - 1 else 1)"

text \<open>\<^verbatim>\<open>_sgng\<close>, lines 493-497.\<close>

definition sgng :: "real \<Rightarrow> real \<Rightarrow> real \<Rightarrow> real" where
  "sgng z zplus x =
     copysign1 (sin (2 * pi * (zplus - z)) + sin (2 * pi * (x - zplus)) + sin (2 * pi * (z - x)))"

text \<open>
  \<^verbatim>\<open>invariant\<close>, lines 473-487: the inner loop over \<open>j\<close>, the outer loop over \<open>i\<close>.
  The arguments of \<^verbatim>\<open>_sgng\<close> are evaluated from left to right; a gap that is still
  \<^verbatim>\<open>None\<close> makes the subtraction in \<^verbatim>\<open>_sgng\<close> raise \<^verbatim>\<open>TypeError\<close>.
  \<open>acc\<close> is the running product \<^verbatim>\<open>inv\<close>.
\<close>

fun invariant_inner :: "plane_state \<Rightarrow> nat \<Rightarrow> nat list \<Rightarrow> real \<Rightarrow> error + real" where
  "invariant_inner s i [] acc = Inr acc"
| "invariant_inner s i (j # js) acc =
     (case py_get (gaps s) i of
        Inl e \<Rightarrow> Inl e
      | Inr z \<Rightarrow>
          (case py_get (gaps s) (i + 1) of
             Inl e \<Rightarrow> Inl e
           | Inr zplus \<Rightarrow>
               (case py_get (wcc_list s) (i + 1) of
                  Inl e \<Rightarrow> Inl e
                | Inr row \<Rightarrow>
                    (case py_get row j of
                       Inl e \<Rightarrow> Inl e
                     | Inr x \<Rightarrow>
                         (case (z, zplus) of
                            (Some z', Some zplus') \<Rightarrow> invariant_inner s i js (acc * sgng z' zplus' x)
                          | _ \<Rightarrow> Inl TypeError)))))"

fun invariant_outer :: "plane_state \<Rightarrow> nat list \<Rightarrow> real \<Rightarrow> error + real" where
  "invariant_outer s [] acc = Inr acc"
| "invariant_outer s (i # is) acc =
     (case invariant_inner s i [0..<length (wcc_list s ! 0)] acc of
        Inl e \<Rightarrow> Inl e
      | Inr acc' \<Rightarrow> invariant_outer s is acc')"

text \<open>The object's lists do not exist before \<^verbatim>\<open>wcc_calc\<close> or \<^verbatim>\<open>load\<close> has run: \<open>None\<close>.\<close>

definition invariant :: "plane_state option \<Rightarrow> error + int" where
  "invariant st =
     (case st of
        None \<Rightarrow> Inl RuntimeError
      | Some s \<Rightarrow>
          (case invariant_outer s [0..<length (wcc_list s) - 1] 1 of
             Inl e \<Rightarrow> Inl e
           | Inr acc \<Rightarrow> Inr (if acc = - 1 then 1 else 0)))"

subsection \<open>WCC from the eigenvalues\<close>

text \<open>
  The last line of \<^verbatim>\<open>_trywcc\<close>, line 368. \<^verbatim>\<open>np.log\<close> is the principal branch of the
  complex logarithm: real part \<open>ln |z|\<close>, imaginary part the argument in \<open>(-\<pi>, \<pi>]\<close>.
  The eigenvalues themselves come from \<^verbatim>\<open>scipy.linalg.eig\<close> and are an input here.
\<close>

definition np_log :: "complex \<Rightarrow> complex" where
  "np_log z = Complex (ln (cmod z)) (Arg z)"

definition wcc_of_eig :: "complex \<Rightarrow> real" where
  "wcc_of_eig z = mod1 (Re (\<i> * np_log z / complex_of_real (2 * pi)))"

definition trywcc_wcc :: "complex list \<Rightarrow> real list" where
  "trywcc_wcc eigs = map wcc_of_eig eigs"

subsection \<open>Example inputs\<close>

text \<open>
  Two solved lines: \<open>[0]\<close> has its gap at \<open>1/2\<close> and \<open>[49/100]\<close> at \<open>99/100\<close>
  (the values \<^verbatim>\<open>_gapfind\<close> gives).
\<close>

definition pair_example :: plane_state where
  "pair_example = \<lparr> k_points = [0, 1 / 2], gaps = [Some (1 / 2), Some (99 / 100)],
     wcc_list = [[0], [49 / 100]], neighbour_check = [False], string_status = [True, True] \<rparr>"

text \<open>A provider whose single WCC moves from \<open>0.1\<close> at \<open>N = 8\<close> to \<open>0.104\<close> afterwards.\<close>

definition moving_provider :: "real \<Rightarrow> nat \<Rightarrow> real list \<times> real" where
  "moving_provider kx N = (if N = 8 then [1 / 10] else [13 / 125], 1)"

text \<open>A provider with the same two WCC at every position and every \<open>N\<close>.\<close>

definition constant_provider :: "real \<Rightarrow> nat \<Rightarrow> real list \<times> real" where
  "constant_provider kx N = ([1 / 4, 3 / 4], 1)"

subsection \<open>Auxiliary notions for the proofs\<close>

text \<open>What the loop of \<^verbatim>\<open>_gapfind\<close> has found after the first \<open>n\<close> gaps.\<close>

definition widest_so_far :: "real list \<Rightarrow> nat \<Rightarrow> real \<times> nat \<Rightarrow> bool" where
  "widest_so_far x n acc \<longleftrightarrow>
     (fst acc = 0 \<and> snd acc = 0 \<and> (\<forall>k<n. x ! (k + 1) - x ! k \<le> 0)) \<or>
     (snd acc < n \<and> fst acc = x ! (snd acc + 1) - x ! snd acc \<and> 0 < fst acc \<and>
      (\<forall>k<n. x ! (k + 1) - x ! k \<le> fst acc) \<and>
      (\<forall>k<snd acc. x ! (k + 1) - x ! k < fst acc))"

text \<open>The product of the signs of one pair of lines \<open>(i, i + 1)\<close> over the WCC indices \<open>js\<close>.\<close>

definition sign_product :: "real list \<Rightarrow> real list list \<Rightarrow> nat \<Rightarrow> nat list \<Rightarrow> real" where
  "sign_product gs wl i js = prod_list (map (\<lambda>j. sgng (gs ! i) (gs ! (i + 1)) (wl ! (i + 1) ! j)) js)"

text \<open>
  Solved lines for the invariant: \<open>[1/2]\<close> has its gap at \<open>0\<close>, \<open>[1/4, 3/4]\<close> at \<open>1/2\<close>
  and \<open>[1/4]\<close> at \<open>3/4\<close> (the values \<^verbatim>\<open>_gapfind\<close> gives).
\<close>

definition unequal_example :: plane_state where
  "unequal_example = \<lparr> k_points = [0, 1 / 2], gaps = [Some 0, Some (1 / 2)],
     wcc_list = [[1 / 2], [1 / 4, 3 / 4]], neighbour_check = [True], string_status = [True, True] \<rparr>"

definition short_example :: plane_state where
  "short_example = \<lparr> k_points = [0, 1 / 2], gaps = [Some (1 / 2), Some 0],
     wcc_list = [[1 / 4, 3 / 4], [1 / 2]], neighbour_check = [True], string_status = [True, True] \<rparr>"

definition zero_sign_example :: plane_state where
  "zero_sign_example = \<lparr> k_points = [0, 1 / 4, 1 / 2], gaps = [Some 0, Some 0, Some (3 / 4)],
     wcc_list = [[1 / 2], [1 / 2], [1 / 4]], neighbour_check = [True, True],
     string_status = [True, True, True] \<rparr>"

text \<open>
  The invariant as the specification words it, with the mathematical sign function
  (\<open>sgn 0 = 0\<close>), to be compared with \<open>invariant\<close>.
\<close>

definition spec_sign :: "real \<Rightarrow> real \<Rightarrow> real \<Rightarrow> real" where
  "spec_sign z zplus x =
     sgn (sin (2 * pi * (zplus - z)) + sin (2 * pi * (x - zplus)) + sin (2 * pi * (z - x)))"

definition spec_invariant :: "real list \<Rightarrow> real list list \<Rightarrow> int" where
  "spec_invariant gs wl =
     (if (\<Prod>i<length wl - 1. \<Prod>j<length (wl ! (i + 1)).
            spec_sign (gs ! i) (gs ! (i + 1)) (wl ! (i + 1) ! j)) = - 1 then 1 else 0)"

subsection \<open>Points of the computation\<close>

text \<open>
  One step of \<^verbatim>\<open>wcc_calc\<close> on the lists: a line is solved (lines 160-164), or
  \<^verbatim>\<open>_check_neighbours\<close> has run (line 167). The reachable states are those that the
  initialisation and any number of such steps give.
\<close>

inductive wcc_step ::
  "(real \<Rightarrow> real) \<Rightarrow> (real \<Rightarrow> nat \<Rightarrow> real list \<times> real) \<Rightarrow> config \<Rightarrow> plane_state \<Rightarrow> plane_state \<Rightarrow> bool"
  for fl f cfg where
  solved: "solve_line f cfg s i = Inr s' \<Longrightarrow> wcc_step fl f cfg s s'"
| checked: "check_neighbours fl cfg s = Inr (s', b) \<Longrightarrow> wcc_step fl f cfg s s'"

inductive wcc_reachable ::
  "(real \<Rightarrow> real) \<Rightarrow> (real \<Rightarrow> nat \<Rightarrow> real list \<times> real) \<Rightarrow> config \<Rightarrow> plane_state \<Rightarrow> bool"
  for fl f cfg where
  initial: "wcc_reachable fl f cfg (init_state fl cfg)"
| step: "wcc_reachable fl f cfg s \<Longrightarrow> wcc_step fl f cfg s s' \<Longrightarrow> wcc_reachable fl f cfg s'"

text \<open>All lines are solved: the state after the \<^verbatim>\<open>for\<close> loop of lines 159-164.\<close>

definition all_solved :: "plane_state \<Rightarrow> bool" where
  "all_solved s \<longleftrightarrow> list_all (\<lambda>b. b) (string_status s)"

text \<open>
  The lines of a state, each with its position, WCC, gap and status, and those of them
  that are solved.
\<close>

definition lines :: "plane_state \<Rightarrow> (real \<times> real list \<times> real option \<times> bool) list" where
  "lines s = zip (k_points s) (zip (wcc_list s) (zip (gaps s) (string_status s)))"

definition solved_lines :: "plane_state \<Rightarrow> (real \<times> real list \<times> real option \<times> bool) list" where
  "solved_lines s = filter (\<lambda>l. snd (snd (snd l))) (lines s)"


text \<open>All positions lie between 0 and 1.\<close>

definition in_unit :: "plane_state \<Rightarrow> bool" where
  "in_unit s \<longleftrightarrow> (\<forall>x\<in>set (k_points s). 0 \<le> x \<and> x \<le> 1)"






text \<open>
  A run with one bisection, in exact arithmetic: eight lines, \<^verbatim>\<open>no_iter\<close> set and a
  provider whose WCC is \<open>0\<close> at \<open>kx = 0\<close> and \<open>1/2\<close> elsewhere. The spacing is \<open>1/14\<close>; with
  \<open>min_neighbour_dist = 1/20\<close> the first pair is bisected once. \<open>bisect_solved\<close> is the
  state after the first pass over the lines, \<open>bisect_inserted\<close> the state after the first
  call of \<^verbatim>\<open>_check_neighbours\<close> and \<open>bisect_result\<close> the final state.
\<close>

definition bisect_provider :: "real \<Rightarrow> nat \<Rightarrow> real list \<times> real" where
  "bisect_provider kx N = ([if kx = 0 then 0 else 1 / 2], 1)"

definition bisect_config :: config where
  "bisect_config = defaults\<lparr> no_iter := True, num_strings := 8, min_neighbour_dist := 1 / 20 \<rparr>"

definition bisect_solved :: plane_state where
  "bisect_solved =
     \<lparr> k_points = [0, 1 / 14, 1 / 7, 3 / 14, 2 / 7, 5 / 14, 3 / 7, 1 / 2],
       gaps = [Some (1 / 2), Some 0, Some 0, Some 0, Some 0, Some 0, Some 0, Some 0],
       wcc_list = [[0], [1 / 2], [1 / 2], [1 / 2], [1 / 2], [1 / 2], [1 / 2], [1 / 2]],
       neighbour_check = [False, False, False, False, False, False, False],
       string_status = [True, True, True, True, True, True, True, True] \<rparr>"

definition bisect_inserted :: plane_state where
  "bisect_inserted =
     \<lparr> k_points = [0, 1 / 28, 1 / 14, 1 / 7, 3 / 14, 2 / 7, 5 / 14, 3 / 7, 1 / 2],
       gaps = [Some (1 / 2), None, Some 0, Some 0, Some 0, Some 0, Some 0, Some 0, Some 0],
       wcc_list = [[0], [], [1 / 2], [1 / 2], [1 / 2], [1 / 2], [1 / 2], [1 / 2], [1 / 2]],
       neighbour_check = [False, False, False, False, False, False, False, False],
       string_status = [True, False, True, True, True, True, True, True, True] \<rparr>"


text \<open>The defaults with \<^verbatim>\<open>no_neighbour_check = True\<close> and \<^verbatim>\<open>verbose = False\<close>.\<close>

definition skip_quiet_config :: config where
  "skip_quiet_config = defaults\<lparr> no_neighbour_check := True, verbose := False \<rparr>"

section \<open>Properties\<close>

subsection \<open>Arithmetic modulo 1\<close>

lemma mod1_quarter: "mod1 (1 / 4) = 1 / 4"
proof -
  have "\<lfloor>(1 / 4) :: real\<rfloor> = 0" by linarith
  then show ?thesis by (simp add: mod1_def)
qed

lemma mod1_neg_quarter: "mod1 (- (1 / 4)) = 3 / 4"
proof -
  have "\<lfloor>- (1 / 4) :: real\<rfloor> = - 1" by linarith
  then show ?thesis by (simp add: mod1_def)
qed

subsection \<open>The neighbour check compares one direction only\<close>

text \<open>
  C1. The neighbour check is meant to succeed exactly when the gap of the left line is at
  circular distance at least \<open>gap_tol\<close> from every WCC of the right line. Both arguments
  of \<^verbatim>\<open>min\<close> in \<^verbatim>\<open>_check_single_direction\<close> are the same number, \<open>(w - g) mod 1\<close>, so a
  WCC just below the gap is not seen: with the gap at \<open>0.5\<close>, a WCC at \<open>0.49\<close> and the
  default \<open>gap_tol = 0.02\<close> the check succeeds although the circular distance is \<open>0.01\<close>.
\<close>

theorem check_single_neighbour_misses_wcc_below_gap:
  "check_single_neighbour defaults pair_example 0 1 = Inr True
   \<and> circ_dist (1 / 2) (49 / 100) = 1 / 100
   \<and> circ_dist (1 / 2) (49 / 100) < gap_tol defaults"
  by (simp add: check_single_neighbour_def pair_example_def py_get_def defaults_def mod1_def
      circ_dist_def)

subsection \<open>Too few strings\<close>

text \<open>
  C10. For \<open>2 \<le> num_strings < 8\<close>, \<^verbatim>\<open>wcc_calc\<close> raises \<^verbatim>\<open>NameError\<close>: the module never
  binds the name \<^verbatim>\<open>warnings\<close>. Nothing is initialised and no line is computed.
\<close>

theorem wcc_calc_few_strings_NameError:
  "2 \<le> num_strings cfg \<Longrightarrow> num_strings cfg < 8 \<Longrightarrow> wcc_calc fl f cfg = Some (Inl NameError)"
  by (simp add: wcc_calc_def module_names_def)

theorem wcc_calc_few_strings_NameError_witness:
  "2 \<le> num_strings (defaults\<lparr>num_strings := 5\<rparr>)
   \<and> num_strings (defaults\<lparr>num_strings := 5\<rparr>) < 8
   \<and> wcc_calc round_double constant_provider (defaults\<lparr>num_strings := 5\<rparr>) = Some (Inl NameError)"
  using wcc_calc_few_strings_NameError [of "defaults\<lparr>num_strings := 5\<rparr>" round_double constant_provider]
  by simp

subsection \<open>WCC as eigenvalue phases\<close>

lemma wcc_of_eig_eq: "wcc_of_eig z = mod1 (- Arg z / (2 * pi))"
  by (simp add: wcc_of_eig_def np_log_def)

text \<open>
  C3, as stated: each WCC is \<open>(arg z / 2\<pi>) mod 1\<close>. It fails at the eigenvalue \<open>\<i>\<close>, whose
  argument is \<open>\<pi>/2\<close>: the code reports \<open>3/4\<close>, not \<open>1/4\<close>.
\<close>

theorem trywcc_wcc_phase_counterexample:
  "trywcc_wcc [\<i>] = [3 / 4] \<and> mod1 (Arg \<i> / (2 * pi)) = 1 / 4
   \<and> trywcc_wcc [\<i>] \<noteq> [mod1 (Arg \<i> / (2 * pi))]"
  using mod1_neg_quarter mod1_quarter by (simp add: trywcc_wcc_def wcc_of_eig_eq)

text \<open>
  C3, amended: the real part of \<open>\<i> log z\<close> is the negated argument, so each WCC is
  \<open>(- arg z / 2\<pi>) mod 1\<close>, and there is one value per eigenvalue, in the same order.
\<close>

theorem trywcc_wcc_negated_phase:
  "trywcc_wcc eigs = map (\<lambda>z. mod1 (- Arg z / (2 * pi))) eigs
   \<and> length (trywcc_wcc eigs) = length eigs"
  by (simp add: trywcc_wcc_def wcc_of_eig_eq)

subsection \<open>Stopping of the per-line refinement\<close>

lemma convcheck_True_iff:
  "convcheck cfg a b = Inr True \<longleftrightarrow>
     length a = length b \<and> (\<exists>v. convsum a b (wcc_tol cfg) = Inr v \<and> v < 1)"
  by (auto simp: convcheck_def split: sum.splits)

lemma convcheck_False_iff:
  "convcheck cfg a b = Inr False \<longleftrightarrow>
     length a \<noteq> length b \<or> (\<exists>v. convsum a b (wcc_tol cfg) = Inr v \<and> \<not> v < 1)"
  by (auto simp: convcheck_def split: sum.splits)

lemma getwcc_iter_post:
  "getwcc_iter f cfg kx N niter x min_sv = Inr (x', xold, n, oc) \<Longrightarrow>
     (oc = Finished \<longleftrightarrow> convcheck cfg x' xold = Inr True) \<and>
     (oc = FailedToConverge \<longleftrightarrow> convcheck cfg x' xold = Inr False \<and> max_iter cfg < int n) \<and>
     niter < n \<and> int n \<le> max (int niter + 1) (max_iter cfg + 1)"
proof (induction f cfg kx N niter x min_sv rule: getwcc_iter.induct)
  case (1 f cfg kx N niter x min_sv)
  let ?x1 = "fst (f kx (next_N niter min_sv N))"
  from "1.prems" obtain c where c: "convcheck cfg ?x1 x = Inr c"
    by (subst (asm) getwcc_iter.simps) (auto split: sum.splits)
  show ?case
  proof (cases c)
    case True
    with c "1.prems" show ?thesis
      by (subst (asm) getwcc_iter.simps) auto
  next
    case False
    note nc = this
    show ?thesis
    proof (cases "max_iter cfg < int (niter + 1)")
      case True
      with c nc "1.prems" show ?thesis
        by (subst (asm) getwcc_iter.simps) auto
    next
      case False
      with c nc "1.prems" have
        "getwcc_iter f cfg kx (next_N niter min_sv N) (niter + 1) ?x1 (snd (f kx (next_N niter min_sv N)))
           = Inr (x', xold, n, oc)"
        by (subst (asm) getwcc_iter.simps) auto
      from "1.IH"[OF c _ _ this] nc False show ?thesis by auto
    qed
  qed
qed

lemma getwcc_iter_moving:
  "getwcc_iter moving_provider defaults 0 8 0 [1 / 10] 1 = Inr ([13 / 125], [1 / 10], 1, Finished)"
  by code_simp

lemma convsum_moving: "convsum [13 / 125] [1 / 10] (wcc_tol defaults) = Inr (2 / 7)"
  by code_simp

text \<open>
  C2, as stated: the loop stops successfully exactly when the metric value is below
  \<open>wcc_tol\<close>. With the default \<open>wcc_tol = 0.01\<close> and one WCC moving from \<open>0.1\<close> to \<open>0.104\<close>
  the metric is \<open>2/7\<close>, which is not below \<open>wcc_tol\<close>, and the loop stops successfully
  after its first iteration.
\<close>

theorem getwcc_iter_tolerance_counterexample:
  "getwcc_iter moving_provider defaults 0 8 0 [1 / 10] 1 = Inr ([13 / 125], [1 / 10], 1, Finished)
   \<and> convsum [13 / 125] [1 / 10] (wcc_tol defaults) = Inr (2 / 7)
   \<and> \<not> 2 / 7 < wcc_tol defaults"
  using getwcc_iter_moving convsum_moving by (simp add: defaults_def)

lemma refine_step_tuple [simp]:
  "refine_step f kx niter (N, x, sv) = (next_N niter sv N, f kx (next_N niter sv N))"
  by (simp add: refine_step_def)

lemma wcc_after_0: "wcc_after f kx niter st 0 = fst (snd st)"
  by (simp add: wcc_after_def)

lemma wcc_after_Suc:
  "wcc_after f kx niter st (Suc k) = wcc_after f kx (niter + 1) (refine_step f kx niter st) k"
  by (simp add: wcc_after_def)

lemma stops_after_0:
  "stops_after f cfg kx niter (N, x, sv) 0 oc \<longleftrightarrow>
     (oc = Finished \<and> convcheck cfg (fst (f kx (next_N niter sv N))) x = Inr True
      \<or> oc = FailedToConverge \<and> convcheck cfg (fst (f kx (next_N niter sv N))) x = Inr False
          \<and> max_iter cfg < int (niter + 1))"
  by (simp add: stops_after_def wcc_after_0 wcc_after_Suc)

lemma stops_after_Suc:
  "stops_after f cfg kx niter (N, x, sv) (Suc k) oc \<longleftrightarrow>
     convcheck cfg (fst (f kx (next_N niter sv N))) x = Inr False
     \<and> int (niter + 1) \<le> max_iter cfg
     \<and> stops_after f cfg kx (niter + 1) (next_N niter sv N, f kx (next_N niter sv N)) k oc"
  unfolding stops_after_def All_less_Suc2
  by (simp add: wcc_after_0 wcc_after_Suc conj_ac)

lemma ex_nat_0_Suc: "(\<exists>k. P k) \<longleftrightarrow> P 0 \<or> (\<exists>k. P (Suc k))"
  by (metis not0_implies_Suc)

lemma getwcc_iter_trace:
  "getwcc_iter f cfg kx N niter x sv = Inr (x', xold, n, oc) \<longleftrightarrow>
     (\<exists>k. n = niter + k + 1
        \<and> xold = wcc_after f kx niter (N, x, sv) k
        \<and> x' = wcc_after f kx niter (N, x, sv) (k + 1)
        \<and> stops_after f cfg kx niter (N, x, sv) k oc)"
proof (induction f cfg kx N niter x sv rule: getwcc_iter.induct)
  case (1 f cfg kx N niter x sv)
  let ?N' = "next_N niter sv N"
  let ?x1 = "fst (f kx ?N')"
  let ?st' = "(?N', f kx ?N')"
  define R where "R k \<longleftrightarrow> n = niter + k + 1
        \<and> xold = wcc_after f kx niter (N, x, sv) k
        \<and> x' = wcc_after f kx niter (N, x, sv) (k + 1)
        \<and> stops_after f cfg kx niter (N, x, sv) k oc" for k
  define R' where "R' k \<longleftrightarrow> n = (niter + 1) + k + 1
       \<and> xold = wcc_after f kx (niter + 1) ?st' k
       \<and> x' = wcc_after f kx (niter + 1) ?st' (k + 1)
       \<and> stops_after f cfg kx (niter + 1) ?st' k oc" for k
  have R0: "R 0 \<longleftrightarrow> n = niter + 1 \<and> xold = x \<and> x' = ?x1
       \<and> (oc = Finished \<and> convcheck cfg ?x1 x = Inr True
          \<or> oc = FailedToConverge \<and> convcheck cfg ?x1 x = Inr False \<and> max_iter cfg < int (niter + 1))"
    unfolding R_def by (simp add: stops_after_0 wcc_after_0 wcc_after_Suc)
  have RS: "R (Suc k) \<longleftrightarrow> convcheck cfg ?x1 x = Inr False \<and> int (niter + 1) \<le> max_iter cfg \<and> R' k" for k
    unfolding R_def R'_def stops_after_Suc by (simp add: wcc_after_Suc conj_ac)
  have goal: "?case \<longleftrightarrow> (getwcc_iter f cfg kx N niter x sv = Inr (x', xold, n, oc) \<longleftrightarrow> (\<exists>k. R k))"
    unfolding R_def by simp
  have exR: "(\<exists>k. R k) \<longleftrightarrow> R 0 \<or> (convcheck cfg ?x1 x = Inr False \<and> int (niter + 1) \<le> max_iter cfg \<and> (\<exists>k. R' k))"
    by (subst ex_nat_0_Suc) (simp add: RS)
  show ?case
  proof (cases "convcheck cfg ?x1 x")
    case (Inl e)
    then have "getwcc_iter f cfg kx N niter x sv = Inl e"
      by (subst getwcc_iter.simps) simp
    with Inl show ?thesis unfolding goal exR R0 by simp
  next
    case (Inr c)
    show ?thesis
    proof (cases c)
      case True
      with Inr have "getwcc_iter f cfg kx N niter x sv = Inr (?x1, x, niter + 1, Finished)"
        by (subst getwcc_iter.simps) simp
      with Inr True show ?thesis unfolding goal exR R0 by auto
    next
      case False
      note nc = this
      show ?thesis
      proof (cases "max_iter cfg < int (niter + 1)")
        case True
        with Inr nc have "getwcc_iter f cfg kx N niter x sv = Inr (?x1, x, niter + 1, FailedToConverge)"
          by (subst getwcc_iter.simps) simp
        with Inr nc True show ?thesis unfolding goal exR R0 by auto
      next
        case False
        with Inr nc have unf: "getwcc_iter f cfg kx N niter x sv
            = getwcc_iter f cfg kx ?N' (niter + 1) ?x1 (snd (f kx ?N'))"
          by (subst getwcc_iter.simps) simp
        have "\<not> int (niter + 1) > max_iter cfg" using False by simp
        from "1.IH"[OF Inr nc this]
        have "getwcc_iter f cfg kx ?N' (niter + 1) ?x1 (snd (f kx ?N')) = Inr (x', xold, n, oc)
            \<longleftrightarrow> (\<exists>k. R' k)"
          unfolding R'_def by simp
        with unf Inr nc False show ?thesis unfolding goal exR R0 by simp
      qed
    qed
  qed
qed

lemma refined_provider:
  "snd (refined f kx niter st (Suc k)) = f kx (fst (refined f kx niter st (Suc k)))"
proof (induction k arbitrary: niter st)
  case 0
  show ?case by (cases st) (simp add: refine_step_def)
next
  case (Suc k)
  from Suc[of "niter + 1" "refine_step f kx niter st"] show ?case by simp
qed

lemma getwcc_iter_late:
  "getwcc_iter moving_provider defaults 0 8 0 [] 1 = Inr ([13 / 125], [13 / 125], 2, Finished)"
  by code_simp

text \<open>
  C2, amended: \<open>wcc_tol\<close> is the width parameter of the metric and the threshold is \<open>1\<close>.
  The loop returns \<open>(x', xold, n, oc)\<close> exactly when, for some \<open>k\<close>: each of the first
  \<open>k\<close> iterations found the check of line 320 false with the count still within
  \<open>max_iter\<close>, so that the loop went on; iteration \<open>k + 1\<close> found the check true
  (\<open>oc = Finished\<close>), or false with the count above \<open>max_iter\<close> (\<open>oc = FailedToConverge\<close>);
  \<open>n\<close> is the count of iterations, \<open>x'\<close> the list that the provider gave in the last of
  them and \<open>xold\<close> the one before. So the loop stops at the first check that succeeds and
  never before the cap otherwise. The check succeeds exactly when the two lists have the
  same length and their metric value is below \<open>1\<close>. In both cases \<^verbatim>\<open>_getwcc\<close> returns
  the latest WCC list, sorted.
\<close>

theorem getwcc_iter_stops:
  "(getwcc_iter f cfg kx N niter x min_sv = Inr (x', xold, n, oc) \<longleftrightarrow>
      (\<exists>k. n = niter + k + 1
         \<and> xold = wcc_after f kx niter (N, x, min_sv) k
         \<and> x' = wcc_after f kx niter (N, x, min_sv) (k + 1)
         \<and> stops_after f cfg kx niter (N, x, min_sv) k oc))
   \<and> wcc_after f kx niter (N, x, min_sv) (j + 1)
       = fst (f kx (fst (refined f kx niter (N, x, min_sv) (j + 1))))
   \<and> (convcheck cfg a b = Inr True \<longleftrightarrow>
        length a = length b \<and> (\<exists>v. convsum a b (wcc_tol cfg) = Inr v \<and> v < 1))
   \<and> (convcheck cfg a b = Inr False \<longleftrightarrow>
        length a \<noteq> length b \<or> (\<exists>v. convsum a b (wcc_tol cfg) = Inr v \<and> \<not> v < 1))
   \<and> (getwcc_iter f cfg kx N niter x min_sv = Inr (x', xold, n, oc) \<longrightarrow>
        (oc = Finished \<longleftrightarrow>
           length x' = length xold \<and> (\<exists>v. convsum x' xold (wcc_tol cfg) = Inr v \<and> v < 1))
        \<and> (oc = FailedToConverge \<longrightarrow> max_iter cfg < int n)
        \<and> int n \<le> max (int niter + 1) (max_iter cfg + 1)
        \<and> (\<not> no_iter cfg \<and> N = 8 \<and> niter = 0 \<and> x = fst (f kx 8) \<and> min_sv = snd (f kx 8)
             \<longrightarrow> getwcc f cfg kx = Inr (sort x')))"
proof -
  have "wcc_after f kx niter (N, x, min_sv) (j + 1)
       = fst (f kx (fst (refined f kx niter (N, x, min_sv) (j + 1))))"
    using refined_provider[of f kx niter "(N, x, min_sv)" j] by (simp add: wcc_after_def)
  moreover have "getwcc_iter f cfg kx N niter x min_sv = Inr (x', xold, n, oc) \<longrightarrow>
        (oc = Finished \<longleftrightarrow>
           length x' = length xold \<and> (\<exists>v. convsum x' xold (wcc_tol cfg) = Inr v \<and> v < 1))
        \<and> (oc = FailedToConverge \<longrightarrow> max_iter cfg < int n)
        \<and> int n \<le> max (int niter + 1) (max_iter cfg + 1)
        \<and> (\<not> no_iter cfg \<and> N = 8 \<and> niter = 0 \<and> x = fst (f kx 8) \<and> min_sv = snd (f kx 8)
             \<longrightarrow> getwcc f cfg kx = Inr (sort x'))"
  proof
    assume r: "getwcc_iter f cfg kx N niter x min_sv = Inr (x', xold, n, oc)"
    have "\<not> no_iter cfg \<and> N = 8 \<and> niter = 0 \<and> x = fst (f kx 8) \<and> min_sv = snd (f kx 8)
          \<longrightarrow> getwcc f cfg kx = Inr (sort x')"
      using r by (auto simp: getwcc_def)
    with getwcc_iter_post[OF r] show "(oc = Finished \<longleftrightarrow>
           length x' = length xold \<and> (\<exists>v. convsum x' xold (wcc_tol cfg) = Inr v \<and> v < 1))
        \<and> (oc = FailedToConverge \<longrightarrow> max_iter cfg < int n)
        \<and> int n \<le> max (int niter + 1) (max_iter cfg + 1)
        \<and> (\<not> no_iter cfg \<and> N = 8 \<and> niter = 0 \<and> x = fst (f kx 8) \<and> min_sv = snd (f kx 8)
             \<longrightarrow> getwcc f cfg kx = Inr (sort x'))"
      by (simp add: convcheck_True_iff)
  qed
  ultimately show ?thesis
    using getwcc_iter_trace[of f cfg kx N niter x min_sv x' xold n oc]
      convcheck_True_iff[of cfg a b] convcheck_False_iff[of cfg a b]
    by blast
qed

text \<open>
  Two runs of \<open>moving_provider\<close> with the defaults. From the list of \<open>N = 8\<close> the first
  check succeeds (\<open>k = 0\<close>). From the empty list the first check fails, the lengths
  differing, the loop goes on and the second check succeeds (\<open>k = 1\<close>).
\<close>

theorem getwcc_iter_stops_witness:
  "getwcc_iter moving_provider defaults 0 8 0 [1 / 10] 1 = Inr ([13 / 125], [1 / 10], 1, Finished)
   \<and> stops_after moving_provider defaults 0 0 (8, [1 / 10], 1) 0 Finished
   \<and> wcc_after moving_provider 0 0 (8, [1 / 10], 1) 1 = [13 / 125]
   \<and> (\<exists>v. convsum [13 / 125] [1 / 10] (wcc_tol defaults) = Inr v \<and> v < 1)
   \<and> getwcc moving_provider defaults 0 = Inr [13 / 125]
   \<and> getwcc_iter moving_provider defaults 0 8 0 [] 1 = Inr ([13 / 125], [13 / 125], 2, Finished)
   \<and> stops_after moving_provider defaults 0 0 (8, [], 1) 1 Finished
   \<and> convcheck defaults (wcc_after moving_provider 0 0 (8, [], 1) 1) (wcc_after moving_provider 0 0 (8, [], 1) 0)
       = Inr False
   \<and> wcc_after moving_provider 0 0 (8, [], 1) 2 = [13 / 125]"
proof -
  note a = getwcc_iter_stops [of moving_provider defaults 0 8 0 "[1 / 10]" 1 "[13 / 125]" "[1 / 10]" 1 Finished
      0 "[13 / 125]" "[1 / 10]"]
  note b = getwcc_iter_stops [of moving_provider defaults 0 8 0 "[]" 1 "[13 / 125]" "[13 / 125]" 2 Finished
      0 "[13 / 125]" "[]"]
  from a getwcc_iter_moving
  have a1: "stops_after moving_provider defaults 0 0 (8, [1 / 10], 1) 0 Finished"
    and a2: "\<exists>v. convsum [13 / 125] [1 / 10] (wcc_tol defaults) = Inr v \<and> v < 1"
    and a3: "getwcc moving_provider defaults 0 = Inr [13 / 125]"
    by (simp_all add: defaults_def moving_provider_def)
  from b getwcc_iter_late
  have b1: "stops_after moving_provider defaults 0 0 (8, [], 1) 1 Finished" by simp
  then have b2: "convcheck defaults (wcc_after moving_provider 0 0 (8, [], 1) 1)
      (wcc_after moving_provider 0 0 (8, [], 1) 0) = Inr False"
    by (simp add: stops_after_def)
  have w: "wcc_after moving_provider 0 0 (8, [1 / 10], 1) 1 = [13 / 125]"
    "wcc_after moving_provider 0 0 (8, [], 1) 2 = [13 / 125]"
    by (simp_all add: wcc_after_def numeral_2_eq_2 next_N_def moving_provider_def)
  from getwcc_iter_moving getwcc_iter_late a1 a2 a3 b1 b2 w show ?thesis by simp
qed

subsection \<open>The gap finder selects the widest gap\<close>

lemma gapfind_loop_append:
  "gapfind_loop x (as @ bs) acc = gapfind_loop x bs (gapfind_loop x as acc)"
  by (induction as arbitrary: acc) (auto simp: Let_def)

lemma gapfind_loop_widest:
  "widest_so_far x n (gapfind_loop x [0..<n] (0, 0))"
proof (induction n)
  case 0
  show ?case by (simp add: widest_so_far_def)
next
  case (Suc n)
  obtain gs gp where acc: "gapfind_loop x [0..<n] (0, 0) = (gs, gp)"
    by (cases "gapfind_loop x [0..<n] (0, 0)")
  with Suc have inv: "widest_so_far x n (gs, gp)" by simp
  show ?case
  proof (cases "x ! (n + 1) - x ! n > gs")
    case True
    with acc have "gapfind_loop x [0..<Suc n] (0, 0) = (x ! (n + 1) - x ! n, n)"
      by (simp add: gapfind_loop_append Let_def)
    moreover have "widest_so_far x (Suc n) (x ! (n + 1) - x ! n, n)"
      using inv True unfolding widest_so_far_def
      by (auto simp: less_Suc_eq) (force+)?
    ultimately show ?thesis by simp
  next
    case False
    with acc have "gapfind_loop x [0..<Suc n] (0, 0) = (gs, gp)"
      by (simp add: gapfind_loop_append Let_def)
    moreover have "widest_so_far x (Suc n) (gs, gp)"
      using inv False unfolding widest_so_far_def
      by (auto simp: less_Suc_eq)
    ultimately show ?thesis by simp
  qed
qed

lemma sorted_flat:
  assumes "sorted x" "\<forall>k<length x - 1. x ! (k + 1) - x ! k \<le> (0::real)" "x \<noteq> []"
  shows "x ! 0 = x ! (length x - 1)"
proof -
  have "k < length x \<Longrightarrow> x ! k \<le> x ! 0" for k
  proof (induction k)
    case 0 show ?case by simp
  next
    case (Suc k)
    then have "x ! (k + 1) - x ! k \<le> 0" using assms(2) by auto
    with Suc show ?case by simp
  qed
  then have "x ! (length x - 1) \<le> x ! 0" using assms(3) by simp
  moreover have "x ! 0 \<le> x ! (length x - 1)"
    using assms(1,3) by (simp add: sorted_nth_mono)
  ultimately show ?thesis by simp
qed

text \<open>
  C8. For a list with at least two elements, \<^verbatim>\<open>_gapfind\<close> returns the midpoint, modulo 1,
  of a gap \<open>p\<close> of the sorted list (the last gap being the wrap-around one); no gap is
  wider than gap \<open>p\<close>, and every gap before \<open>p\<close> in sorted order is strictly narrower.
\<close>

theorem gapfind_widest_gap:
  assumes "2 \<le> length xs"
  shows "\<exists>p<length xs.
           gapfind xs = Inr (mod1 (sort xs ! p + gap_width (sort xs) p / 2)) \<and>
           (\<forall>k<length xs. gap_width (sort xs) k \<le> gap_width (sort xs) p) \<and>
           (\<forall>k<p. gap_width (sort xs) k < gap_width (sort xs) p)"
proof -
  define x where "x = sort xs"
  define N where "N = length x"
  have lx: "length x = length xs" by (simp add: x_def)
  have N: "N = length xs" "2 \<le> N" "x \<noteq> []" using assms lx by (auto simp: N_def)
  have srt: "sorted x" by (simp add: x_def)
  obtain gs gp where acc: "gapfind_loop x [0..<N - 1] (0, 0) = (gs, gp)"
    by (cases "gapfind_loop x [0..<N - 1] (0, 0)")
  have inv: "widest_so_far x (N - 1) (gs, gp)"
    using gapfind_loop_widest[of x "N - 1"] acc by simp
  define w where "w = x ! 0 - x ! (N - 1) + 1"
  have gw_last: "gap_width x (N - 1) = w" "gap_width x (N - Suc 0) = w"
    by (simp_all add: gap_width_def w_def N_def)
  have gw_in: "k < N - 1 \<Longrightarrow> gap_width x k = x ! (k + 1) - x ! k" for k
    by (simp add: gap_width_def N_def)
  have res: "gapfind xs = Inr (if w > gs then mod1 (x ! (N - 1) + w / 2) else mod1 (x ! gp + gs / 2))"
    using acc N by (simp add: gapfind_def Let_def x_def[symmetric] N_def[symmetric] w_def)
  have le_last: "(\<forall>k<N - 1. gap_width x k \<le> g) \<Longrightarrow> gap_width x (N - 1) \<le> g
      \<Longrightarrow> \<forall>k<N. gap_width x k \<le> g" for g
  proof (intro allI impI)
    fix k assume a: "\<forall>k<N - 1. gap_width x k \<le> g" "gap_width x (N - 1) \<le> g" "k < N"
    then have "k < N - 1 \<or> k = N - 1" by linarith
    with a show "gap_width x k \<le> g" by auto
  qed
  have "\<exists>p<N. gapfind xs = Inr (mod1 (x ! p + gap_width x p / 2)) \<and>
           (\<forall>k<N. gap_width x k \<le> gap_width x p) \<and>
           (\<forall>k<p. gap_width x k < gap_width x p)"
  proof (cases "w > gs")
    case True
    have "\<forall>k<N - 1. x ! (k + 1) - x ! k < w"
      using inv True unfolding widest_so_far_def by force
    then have lt: "\<forall>k<N - 1. gap_width x k < gap_width x (N - 1)" by (simp add: gw_in gw_last)
    then have "\<forall>k<N - 1. gap_width x k \<le> gap_width x (N - 1)" by (simp add: less_imp_le)
    then have le: "\<forall>k<N. gap_width x k \<le> gap_width x (N - 1)" by (rule le_last) simp
    have r: "gapfind xs = Inr (mod1 (x ! (N - 1) + gap_width x (N - 1) / 2))"
      using res True by (simp add: gw_last)
    have "N - 1 < N" using N(2) by simp
    with r le lt show ?thesis by blast
  next
    case False
    have pos: "0 < gs \<and> gp < N - 1 \<and> gs = x ! (gp + 1) - x ! gp"
    proof (rule ccontr)
      assume "\<not> ?thesis"
      with inv have "gs = 0" "\<forall>k<N - 1. x ! (k + 1) - x ! k \<le> 0"
        unfolding widest_so_far_def by auto
      with sorted_flat[OF srt _ N(3)] have "w = 1" by (simp add: w_def N_def)
      with False \<open>gs = 0\<close> show False by simp
    qed
    with inv have all: "\<forall>k<N - 1. x ! (k + 1) - x ! k \<le> gs" "\<forall>k<gp. x ! (k + 1) - x ! k < gs"
      unfolding widest_so_far_def by auto
    have gwp: "gap_width x gp = gs" using pos by (simp add: gw_in)
    have "\<forall>k<N - 1. gap_width x k \<le> gap_width x gp" using all(1) by (simp add: gw_in gwp)
    moreover have "gap_width x (N - 1) \<le> gap_width x gp" using False by (simp add: gw_last gwp)
    ultimately have le: "\<forall>k<N. gap_width x k \<le> gap_width x gp" by (rule le_last)
    have lt: "\<forall>k<gp. gap_width x k < gap_width x gp"
    proof (intro allI impI)
      fix k assume "k < gp"
      with pos have "k < N - 1" by simp
      with all(2) \<open>k < gp\<close> show "gap_width x k < gap_width x gp" by (simp add: gw_in gwp)
    qed
    have r: "gapfind xs = Inr (mod1 (x ! gp + gap_width x gp / 2))"
      using res False by (simp add: gwp)
    have "gp < N" using pos by linarith
    with r le lt show ?thesis by blast
  qed
  then show ?thesis unfolding x_def N_def by (simp add: lx[unfolded x_def])
qed

theorem gapfind_widest_gap_witness:
  "2 \<le> length [1 / 10, 6 / 10, 3 / 10 :: real]
   \<and> (\<exists>p<3. gapfind [1 / 10, 6 / 10, 3 / 10]
               = Inr (mod1 (sort [1 / 10, 6 / 10, 3 / 10] ! p
                            + gap_width (sort [1 / 10, 6 / 10, 3 / 10]) p / 2))
            \<and> (\<forall>k<3. gap_width (sort [1 / 10, 6 / 10, 3 / 10]) k
                        \<le> gap_width (sort [1 / 10, 6 / 10, 3 / 10]) p)
            \<and> (\<forall>k<p. gap_width (sort [1 / 10, 6 / 10, 3 / 10]) k
                        < gap_width (sort [1 / 10, 6 / 10, 3 / 10]) p))"
  using gapfind_widest_gap [of "[1 / 10, 6 / 10, 3 / 10]"] by (simp add: numeral_3_eq_3)

subsection \<open>The Z2 invariant\<close>

lemma invariant_inner_eval:
  assumes "gaps s = map Some gs" "i + 1 < length gs" "i + 1 < length (wcc_list s)"
  shows "invariant_inner s i js acc =
     (if \<forall>j\<in>set js. j < length (wcc_list s ! (i + 1))
      then Inr (acc * sign_product gs (wcc_list s) i js) else Inl IndexError)"
  using assms
proof (induction js arbitrary: acc)
  case Nil
  show ?case by (simp add: sign_product_def)
next
  case (Cons j js)
  show ?case
  proof (cases "j < length (wcc_list s ! (i + 1))")
    case True
    with Cons.prems have "invariant_inner s i (j # js) acc
        = invariant_inner s i js (acc * sgng (gs ! i) (gs ! (i + 1)) (wcc_list s ! (i + 1) ! j))"
      by (simp add: py_get_def)
    also have "\<dots> = (if \<forall>j\<in>set js. j < length (wcc_list s ! (i + 1))
        then Inr (acc * sgng (gs ! i) (gs ! (i + 1)) (wcc_list s ! (i + 1) ! j)
                    * sign_product gs (wcc_list s) i js) else Inl IndexError)"
      using Cons.IH[OF Cons.prems] by simp
    finally show ?thesis using True by (simp add: sign_product_def mult.assoc)
  next
    case False
    with Cons.prems show ?thesis by (simp add: py_get_def)
  qed
qed


lemma invariant_outer_eval:
  assumes "gaps s = map Some gs" "length gs = length (wcc_list s)"
    and "\<forall>i\<in>set is. i + 1 < length gs"
  shows "invariant_outer s is acc =
     (if \<forall>i\<in>set is. length (wcc_list s ! 0) \<le> length (wcc_list s ! (i + 1))
      then Inr (acc * prod_list (map (\<lambda>i. sign_product gs (wcc_list s) i [0..<length (wcc_list s ! 0)]) is))
      else Inl IndexError)"
  using assms(3)
proof (induction "is" arbitrary: acc)
  case Nil
  show ?case by simp
next
  case (Cons i "is")
  then have i: "i + 1 < length gs" "i + 1 < length (wcc_list s)" using assms(2) by auto
  note inner = invariant_inner_eval[OF assms(1) i]
  show ?case
  proof (cases "length (wcc_list s ! 0) \<le> length (wcc_list s ! (i + 1))")
    case True
    then have "invariant_outer s (i # is) acc
        = invariant_outer s is (acc * sign_product gs (wcc_list s) i [0..<length (wcc_list s ! 0)])"
      by (simp add: inner)
    also have "\<dots> = (if \<forall>i\<in>set is. length (wcc_list s ! 0) \<le> length (wcc_list s ! (i + 1))
        then Inr (acc * sign_product gs (wcc_list s) i [0..<length (wcc_list s ! 0)]
              * prod_list (map (\<lambda>i. sign_product gs (wcc_list s) i [0..<length (wcc_list s ! 0)]) is))
        else Inl IndexError)"
      using Cons by simp
    finally show ?thesis using True by (simp add: mult.assoc)
  next
    case False
    then have "(\<forall>j\<in>set [0..<length (wcc_list s ! 0)]. j < length (wcc_list s ! (i + 1))) = False"
      by (auto simp: not_le intro!: bexI[of _ "length (wcc_list s ! (i + 1))"])
    then have "invariant_inner s i [0..<length (wcc_list s ! 0)] acc = Inl IndexError"
      by (simp only: inner if_False)
    then have "invariant_outer s (i # is) acc = Inl IndexError"
      by simp
    with False show ?thesis by simp
  qed
qed

lemma prod_list_upt: "prod_list (map f [0..<n]) = (\<Prod>i<n. f i :: real)"
proof -
  have "prod f (set [0..<n]) = prod_list (map f [0..<n])"
    by (rule prod.distinct_set_conv_list) simp
  then show ?thesis by (simp add: lessThan_atLeast0)
qed

lemma sign_product_prod:
  "sign_product gs wl i [0..<m] = (\<Prod>j<m. sgng (gs ! i) (gs ! (i + 1)) (wl ! (i + 1) ! j))"
  unfolding sign_product_def by (rule prod_list_upt)

lemma invariant_eval:
  assumes "gaps s = map Some gs" "length gs = length (wcc_list s)"
  shows "invariant (Some s) =
     (if \<forall>i<length gs - 1. length (wcc_list s ! 0) \<le> length (wcc_list s ! (i + 1))
      then Inr (if (\<Prod>i<length gs - 1. \<Prod>j<length (wcc_list s ! 0).
                      sgng (gs ! i) (gs ! (i + 1)) (wcc_list s ! (i + 1) ! j)) = - 1 then 1 else 0)
      else Inl IndexError)"
proof -
  have "\<forall>i\<in>set [0..<length gs - 1]. i + 1 < length gs" by auto
  from invariant_outer_eval[OF assms this, of 1]
  show ?thesis
    by (simp add: invariant_def assms(2)[symmetric] prod_list_upt sign_product_prod)
qed

lemma sin_neg_half_pi: "sin (- (pi / 2)) = - 1"
  by simp

lemma sin_neg_pi: "sin (- pi) = 0"
  by simp

lemma sgng_0_half_quarter: "sgng 0 (1 / 2) (1 / 4) = - 1"
proof -
  have "2 * pi * (1 / 4 - 1 / 2) = - (pi / 2)" "2 * pi * (0 - 1 / 4) = - (pi / 2)"
       "2 * pi * (1 / 2 - 0) = pi" by simp_all
  then show ?thesis unfolding sgng_def by (simp add: copysign1_def)
qed

lemma sgng_0_0_half: "sgng 0 0 (1 / 2) = 1"
  unfolding sgng_def by (simp add: copysign1_def)

lemma spec_sign_0_0_half: "spec_sign 0 0 (1 / 2) = 0"
  unfolding spec_sign_def by simp

lemma sgng_0_3quarter_quarter: "sgng 0 (3 / 4) (1 / 4) = - 1"
proof -
  have "2 * pi * (3 / 4 - 0) = 3 / 2 * pi" by simp
  then have a: "sin (2 * pi * (3 / 4 - 0)) = - 1" by (simp only: sin_3over2_pi)
  have "2 * pi * (1 / 4 - 3 / 4) = - pi" by simp
  then have b: "sin (2 * pi * (1 / 4 - 3 / 4)) = 0" by (simp only: sin_neg_pi)
  have "2 * pi * (0 - 1 / 4) = - (pi / 2)" by simp
  then have c: "sin (2 * pi * (0 - 1 / 4)) = - 1" by (simp only: sin_neg_half_pi)
  show ?thesis unfolding sgng_def a b c by (simp add: copysign1_def)
qed

lemma upt_2: "[0..<2] = [0, 1]" "[0..<1] = [0]"
  by (simp_all add: upt_rec)

lemma invariant_short_example: "invariant (Some short_example) = Inl IndexError"
  by (simp add: invariant_def short_example_def upt_2 py_get_def)

text \<open>
  C5, as stated: lines of unequal cardinality make \<^verbatim>\<open>invariant\<close> fail, and never give a
  number that ignores surplus WCC. With the lines \<open>[1/2]\<close> and \<open>[1/4, 3/4]\<close> it returns \<open>1\<close>,
  computed from \<open>1/4\<close> alone.
\<close>

theorem invariant_unequal_counterexample:
  "invariant (Some unequal_example) = Inr 1
   \<and> length (wcc_list unequal_example ! 0) = 1 \<and> length (wcc_list unequal_example ! 1) = 2"
  using sgng_0_half_quarter
  by (simp add: invariant_def unequal_example_def upt_2 py_get_def)

text \<open>
  C5, amended: on solved lines, \<^verbatim>\<open>invariant\<close> raises \<^verbatim>\<open>IndexError\<close> when some later line
  has fewer WCC than the first line; when every later line has at least as many, it
  returns a number, the same as for the lines cut to the length of the first one.
\<close>

theorem invariant_unequal_cardinality:
  assumes "gaps s = map Some gs" "length gs = length (wcc_list s)"
  shows "((\<exists>i. i + 1 < length (wcc_list s)
              \<and> length (wcc_list s ! (i + 1)) < length (wcc_list s ! 0))
            \<longrightarrow> invariant (Some s) = Inl IndexError)
         \<and> ((\<forall>i. i + 1 < length (wcc_list s)
                \<longrightarrow> length (wcc_list s ! 0) \<le> length (wcc_list s ! (i + 1)))
            \<longrightarrow> (\<exists>r. invariant (Some s) = Inr r)
                \<and> invariant (Some s)
                    = invariant (Some (s\<lparr> wcc_list := map (take (length (wcc_list s ! 0))) (wcc_list s) \<rparr>)))"
proof (intro conjI impI)
  assume "\<exists>i. i + 1 < length (wcc_list s) \<and> length (wcc_list s ! (i + 1)) < length (wcc_list s ! 0)"
  then obtain i where "i < length gs - 1" "\<not> length (wcc_list s ! 0) \<le> length (wcc_list s ! (i + 1))"
    using assms(2) by (auto simp: not_le less_diff_conv)
  then have "\<not> (\<forall>i<length gs - 1. length (wcc_list s ! 0) \<le> length (wcc_list s ! (i + 1)))"
    by blast
  then show "invariant (Some s) = Inl IndexError"
    by (simp only: invariant_eval[OF assms] if_False)
next
  assume ge: "\<forall>i. i + 1 < length (wcc_list s)
                \<longrightarrow> length (wcc_list s ! 0) \<le> length (wcc_list s ! (i + 1))"
  define m where "m = length (wcc_list s ! 0)"
  define s' where "s' = s\<lparr> wcc_list := map (take m) (wcc_list s) \<rparr>"
  have all: "\<forall>i<length gs - 1. m \<le> length (wcc_list s ! (i + 1))"
    using ge assms(2) by (simp add: m_def less_diff_conv)
  have ev: "invariant (Some s) =
      Inr (if (\<Prod>i<length gs - 1. \<Prod>j<m.
                 sgng (gs ! i) (gs ! (i + 1)) (wcc_list s ! (i + 1) ! j)) = - 1 then 1 else 0)"
    using all by (simp add: invariant_eval[OF assms] m_def)
  then show "\<exists>r. invariant (Some s) = Inr r" by blast
  have "invariant (Some s) = invariant (Some s')"
  proof (cases "length gs \<le> 1")
    case True
    then show ?thesis
      using assms(2) by (simp add: invariant_def s'_def)
  next
    case False
    then have ne: "0 < length (wcc_list s)" using assms(2) by (cases "wcc_list s") auto
    have g': "gaps s' = map Some gs" "length gs = length (wcc_list s')"
      using assms by (simp_all add: s'_def)
    have m': "length (wcc_list s' ! 0) = m"
      using ne by (simp add: s'_def m_def)
    have rows: "i < length gs - 1 \<Longrightarrow> wcc_list s' ! (i + 1) = take m (wcc_list s ! (i + 1))" for i
      using assms(2) by (simp add: s'_def less_diff_conv)
    have all': "\<forall>i<length gs - 1. length (wcc_list s' ! 0) \<le> length (wcc_list s' ! (i + 1))"
    proof (intro allI impI)
      fix i assume i: "i < length gs - 1"
      with all have "m \<le> length (wcc_list s ! (i + 1))" by blast
      then have "length (take m (wcc_list s ! (i + 1))) = m" by simp
      then show "length (wcc_list s' ! 0) \<le> length (wcc_list s' ! (i + 1))"
        by (simp only: m' rows[OF i])
    qed
    have ev': "invariant (Some s') =
      Inr (if (\<Prod>i<length gs - 1. \<Prod>j<m.
                 sgng (gs ! i) (gs ! (i + 1)) (wcc_list s' ! (i + 1) ! j)) = - 1 then 1 else 0)"
      using all' by (simp add: invariant_eval[OF g'] m')
    have "(\<Prod>i<length gs - 1. \<Prod>j<m. sgng (gs ! i) (gs ! (i + 1)) (wcc_list s' ! (i + 1) ! j))
        = (\<Prod>i<length gs - 1. \<Prod>j<m. sgng (gs ! i) (gs ! (i + 1)) (wcc_list s ! (i + 1) ! j))"
      using rows by (intro prod.cong refl) simp
    with ev ev' show ?thesis by simp
  qed
  then show "invariant (Some s)
      = invariant (Some (s\<lparr> wcc_list := map (take (length (wcc_list s ! 0))) (wcc_list s) \<rparr>))"
    by (simp add: s'_def m_def)
qed

theorem invariant_unequal_cardinality_witness:
  "invariant (Some short_example) = Inl IndexError
   \<and> (\<exists>r. invariant (Some unequal_example) = Inr r)
   \<and> invariant (Some unequal_example)
       = invariant (Some (unequal_example\<lparr> wcc_list := [[1 / 2], [1 / 4]] \<rparr>))"
proof -
  have "invariant (Some short_example) = Inl IndexError"
    using invariant_unequal_cardinality [of short_example "[1 / 2, 0]"]
    by (simp add: short_example_def)
  moreover have "(\<exists>r. invariant (Some unequal_example) = Inr r)
     \<and> invariant (Some unequal_example)
       = invariant (Some (unequal_example\<lparr> wcc_list := [[1 / 2], [1 / 4]] \<rparr>))"
  proof -
    have g: "gaps unequal_example = map Some [0, 1 / 2]"
      "length [0, 1 / 2 :: real] = length (wcc_list unequal_example)"
      by (simp_all add: unequal_example_def)
    have ge: "\<forall>i. i + 1 < length (wcc_list unequal_example)
        \<longrightarrow> length (wcc_list unequal_example ! 0) \<le> length (wcc_list unequal_example ! (i + 1))"
      by (simp add: unequal_example_def)
    have tk: "unequal_example\<lparr> wcc_list := map (take (length (wcc_list unequal_example ! 0)))
                (wcc_list unequal_example) \<rparr> = unequal_example\<lparr> wcc_list := [[1 / 2], [1 / 4]] \<rparr>"
      by (simp add: unequal_example_def)
    from invariant_unequal_cardinality [OF g] ge show ?thesis unfolding tk by blast
  qed
  ultimately show ?thesis by blast
qed

text \<open>
  C6, as stated, with the sign function \<open>sgn\<close>: for the gaps \<open>0, 0, 3/4\<close> the first pair
  has the argument \<open>0\<close>, so the product of \<open>sgn\<close> values is \<open>0\<close> and the stated result is \<open>0\<close>;
  \<^verbatim>\<open>np.copysign\<close> gives \<open>+1\<close> there, the product is \<open>-1\<close> and \<^verbatim>\<open>invariant\<close> returns \<open>1\<close>.
\<close>

theorem invariant_zero_sign_counterexample:
"invariant (Some zero_sign_example) = Inr 1
   \<and> spec_invariant [0, 0, 3 / 4] [[1 / 2], [1 / 2], [1 / 4]] = 0"
proof -
  have "invariant (Some zero_sign_example) = Inr 1"
    using sgng_0_0_half sgng_0_3quarter_quarter
    by (simp add: invariant_def zero_sign_example_def upt_2 py_get_def)
  moreover have "spec_invariant [0, 0, 3 / 4] [[1 / 2], [1 / 2], [1 / 4]] = 0"
    using spec_sign_0_0_half
    by (simp add: spec_invariant_def lessThan_Suc numeral_2_eq_2)
  ultimately show ?thesis by simp
qed

text \<open>
  C6, amended: on solved lines of equal cardinality \<open>m\<close>, \<^verbatim>\<open>invariant\<close> returns \<open>1\<close> if the
  product of \<open>sgng\<close> over all pairs \<open>i\<close> and all WCC indices \<open>j\<close> of line \<open>i + 1\<close> is \<open>-1\<close>, and
  \<open>0\<close> otherwise, where \<open>sgng\<close> takes the sign with \<^verbatim>\<open>np.copysign\<close>: \<open>-1\<close> for a negative
  argument and \<open>+1\<close> otherwise, zero included.
\<close>

theorem invariant_product_of_signs:
  assumes "gaps s = map Some gs" "length gs = length (wcc_list s)"
    and "\<forall>row\<in>set (wcc_list s). length row = m"
  shows "invariant (Some s) =
     Inr (if (\<Prod>i<length gs - 1. \<Prod>j<m.
                sgng (gs ! i) (gs ! (i + 1)) (wcc_list s ! (i + 1) ! j)) = - 1 then 1 else 0)"
proof (cases "wcc_list s = []")
  case True
  with assms show ?thesis by (simp add: invariant_eval[OF assms(1,2)])
next
  case False
  then have "length (wcc_list s ! 0) = m" using assms(3) by simp
  moreover have "\<forall>i<length gs - 1. length (wcc_list s ! (i + 1)) = m"
    using assms(2,3) by auto
  ultimately show ?thesis by (simp add: invariant_eval[OF assms(1,2)])
qed

theorem invariant_product_of_signs_witness:
  "invariant (Some zero_sign_example)
    = Inr (if (\<Prod>i<2. \<Prod>j<1. sgng ([0, 0, 3 / 4] ! i) ([0, 0, 3 / 4] ! (i + 1))
                             ([[1 / 2], [1 / 2], [1 / 4]] ! (i + 1) ! j)) = - 1 then 1 else 0)"
  using invariant_product_of_signs [of zero_sign_example "[0, 0, 3 / 4]" 1]
  by (simp add: zero_sign_example_def lessThan_Suc numeral_2_eq_2)

subsection \<open>Rounding to double precision\<close>


















subsection \<open>One call of the neighbour check\<close>

lemma length_py_insert [simp]: "length (py_insert xs i v) = Suc (length xs)"
  by (simp add: py_insert_def)

lemma lengths_asserted_insert_line:
  "lengths_asserted s \<Longrightarrow> lengths_asserted (insert_line s i k)"
  by (simp add: lengths_asserted_def insert_line_def)

lemma lengths_asserted_mark:
  "lengths_asserted s \<Longrightarrow> lengths_asserted (s\<lparr>neighbour_check := (neighbour_check s)[i := True]\<rparr>)"
  by (simp add: lengths_asserted_def)


lemma check_from_done:
  "length (neighbour_check s) \<le> i \<Longrightarrow> check_neighbours_from fl cfg s i = Inr (s, True)"
  by (subst check_neighbours_from.simps) simp



subsection \<open>Termination of the surface engine\<close>






lemma solve_line_props:
  assumes "solve_line f cfg s i = Inr s'"
  shows "k_points s' = k_points s" "neighbour_check s' = neighbour_check s"
    "length (string_status s') = length (string_status s)"
    "length (wcc_list s') = length (wcc_list s)" "length (gaps s') = length (gaps s)"
    "i < length (string_status s)" "string_status s' ! i"
    "j < length (string_status s) \<Longrightarrow> string_status s ! j \<Longrightarrow> string_status s' ! j"
  using assms
  by (auto simp: solve_line_def py_get_def nth_list_update split: sum.splits if_splits)

lemma solve_line_lengths:
  "solve_line f cfg s i = Inr s' \<Longrightarrow> lengths_asserted s \<Longrightarrow> lengths_asserted s'"
  by (simp add: lengths_asserted_def solve_line_props)

lemma solve_lines_props:
  assumes "solve_lines f cfg is s = Inr s'"
  shows "k_points s' = k_points s \<and> neighbour_check s' = neighbour_check s
    \<and> length (string_status s') = length (string_status s)
    \<and> (lengths_asserted s \<longrightarrow> lengths_asserted s')
    \<and> (\<forall>i\<in>set is. string_status s' ! i)
    \<and> (\<forall>j<length (string_status s). string_status s ! j \<longrightarrow> string_status s' ! j)"
  using assms
proof (induction "is" arbitrary: s)
  case Nil
  then show ?case by simp
next
  case (Cons i "is")
  then obtain s1 where s1: "solve_line f cfg s i = Inr s1" "solve_lines f cfg is s1 = Inr s'"
    by (auto split: sum.splits)
  note p = solve_line_props[OF s1(1)] and l = solve_line_lengths[OF s1(1)]
  note IH = Cons.IH[OF s1(2)]
  have "string_status s' ! i" using IH p(3,6,7) by simp
  moreover have "\<forall>j<length (string_status s). string_status s ! j \<longrightarrow> string_status s' ! j"
    using IH p(3,8) by simp
  ultimately show ?case using IH p(1,2,3) l by simp
qed

lemma solve_pass_props:
  assumes "solve_pass f cfg s = Inr s1" "lengths_asserted s"
  shows "k_points s1 = k_points s" "neighbour_check s1 = neighbour_check s"
    "lengths_asserted s1" "all_solved s1"
proof -
  note p = solve_lines_props[OF assms(1)[unfolded solve_pass_def]]
  from p assms(2) show "k_points s1 = k_points s" "neighbour_check s1 = neighbour_check s"
    "lengths_asserted s1" by simp_all
  have "length (string_status s1) = length (k_points s)"
    using p assms(2) by (simp add: lengths_asserted_def)
  with p show "all_solved s1" by (simp add: all_solved_def list_all_length)
qed



lemma nth_in_unit: "in_unit s \<Longrightarrow> i < length (k_points s) \<Longrightarrow> 0 \<le> k_points s ! i \<and> k_points s ! i \<le> 1"
  by (simp add: in_unit_def)




lemma lengths_asserted_init: "2 \<le> num_strings cfg \<Longrightarrow> lengths_asserted (init_state fl cfg)"
  by (simp add: lengths_asserted_def init_state_def linspace_def nat_diff_distrib)








subsection \<open>A run on doubles that never returns\<close>




















subsection \<open>Lines are only inserted\<close>

lemma check_from_step:
  assumes "check_neighbours_from fl cfg s i = Inr (s', b)" "i < length (neighbour_check s)"
  shows "check_neighbours_from fl cfg s (i + 1) = Inr (s', b)
    \<or> check_neighbours_from fl cfg (s\<lparr>neighbour_check := (neighbour_check s)[i := True]\<rparr>) (i + 1) = Inr (s', b)
    \<or> s' = s
    \<or> (\<exists>v. s' = insert_line s i v)"
  using assms
  by (subst (asm) check_neighbours_from.simps) (auto split: if_splits sum.splits)

lemma subseq_py_insert: "subseq xs (py_insert xs j v)"
proof -
  have "subseq (take j xs @ drop j xs) (take j xs @ v # drop j xs)"
    by (intro list_emb_append_mono) (simp_all add: list_emb_Cons)
  then show ?thesis by (simp add: py_insert_def)
qed

lemma zip_py_insert:
  "length xs = length ys \<Longrightarrow> zip (py_insert xs p v) (py_insert ys p w) = py_insert (zip xs ys) p (v, w)"
  by (simp add: py_insert_def take_zip drop_zip)

lemma lines_insert_line:
  assumes "lengths_asserted s"
  shows "lines (insert_line s i v) = py_insert (lines s) (i + 1) (v, [], None, False)"
  using assms
  by (simp add: lines_def insert_line_def lengths_asserted_def zip_py_insert del: One_nat_def)

lemma lines_mark: "lines (s\<lparr>neighbour_check := m\<rparr>) = lines s"
  by (simp add: lines_def)

lemma flags_raised_update: "list_emb (\<lambda>b b'. b \<longrightarrow> b') xs (xs[i := True])"
proof (induction xs arbitrary: i)
  case Nil
  then show ?case by simp
next
  case (Cons x xs)
  show ?case
  proof (cases i)
    case 0
    have "list_emb (\<lambda>b b'. b \<longrightarrow> b') xs xs" by (rule list_emb_refl) simp
    then show ?thesis using 0 by simp
  next
    case (Suc i')
    with Cons.IH[of i'] show ?thesis by simp
  qed
qed

lemma flags_raised_trans:
  "list_emb (\<lambda>b b'. b \<longrightarrow> b') xs ys \<Longrightarrow> list_emb (\<lambda>b b'. b \<longrightarrow> b') ys zs
     \<Longrightarrow> list_emb (\<lambda>b b'. b \<longrightarrow> b') xs zs"
  by (rule list_emb_trans) simp_all

lemma flags_raised_insert: "list_emb (\<lambda>b b'. b \<longrightarrow> b') xs (py_insert xs j v)"
proof -
  have r: "\<And>zs. list_emb (\<lambda>b b'. b \<longrightarrow> b') zs zs" by (rule list_emb_refl) simp
  have "list_emb (\<lambda>b b'. b \<longrightarrow> b') (take j xs @ drop j xs) (take j xs @ v # drop j xs)"
    by (intro list_emb_append_mono list_emb_Cons r)
  then show ?thesis by (simp add: py_insert_def)
qed

lemma check_from_keeps:
  assumes "check_neighbours_from fl cfg s i = Inr (s', b)" "lengths_asserted s"
  shows "lengths_asserted s' \<and> subseq (lines s) (lines s')
     \<and> list_emb (\<lambda>b b'. b \<longrightarrow> b') (neighbour_check s) (neighbour_check s')
     \<and> subseq (k_points s) (k_points s')
     \<and> length (k_points s) \<le> length (k_points s') \<and> length (k_points s') \<le> length (k_points s) + 1"
  using assms
proof (induction "length (neighbour_check s) - i" arbitrary: s i)
  case 0
  then have "check_neighbours_from fl cfg s i = Inr (s, True)" by (simp add: check_from_done)
  with "0.prems" show ?case by (auto intro: list_emb_refl)
next
  case (Suc n)
  then have i: "i < length (neighbour_check s)" by simp
  let ?s2 = "s\<lparr>neighbour_check := (neighbour_check s)[i := True]\<rparr>"
  have n: "n = length (neighbour_check s) - (i + 1)" "n = length (neighbour_check ?s2) - (i + 1)"
    using Suc.hyps(2) by simp_all
  from check_from_step[OF Suc.prems(1) i]
  consider "check_neighbours_from fl cfg s (i + 1) = Inr (s', b)"
    | "check_neighbours_from fl cfg ?s2 (i + 1) = Inr (s', b)"
    | "s' = s" | v where "s' = insert_line s i v" by blast
  then show ?case
  proof cases
    case 1
    from Suc.hyps(1)[OF n(1) 1 Suc.prems(2)] show ?thesis .
  next
    case 2
    note IH = Suc.hyps(1)[OF n(2) 2 lengths_asserted_mark[OF Suc.prems(2)]]
    have "list_emb (\<lambda>b b'. b \<longrightarrow> b') (neighbour_check s) (neighbour_check s')"
      using flags_raised_update[of "neighbour_check s" i] IH by (auto intro: flags_raised_trans)
    with IH show ?thesis by (simp add: lines_mark)
  next
    case 3
    with Suc.prems(2) show ?thesis by (auto intro: list_emb_refl)
  next
    case 4
    have "k_points s' = py_insert (k_points s) (i + 1) v"
      "neighbour_check s' = py_insert (neighbour_check s) (i + 1) False"
      using 4 by (simp_all add: insert_line_def)
    moreover have "lines s' = py_insert (lines s) (i + 1) (v, [], None, False)"
      unfolding 4 using Suc.prems(2) by (rule lines_insert_line)
    ultimately show ?thesis
      using 4 Suc.prems(2)
      by (simp add: lengths_asserted_insert_line subseq_py_insert flags_raised_insert del: One_nat_def)
  qed
qed

lemma subseq_filter_update:
  assumes "i < length xs" "\<not> P (xs ! i)"
  shows "subseq (filter P xs) (filter P (xs[i := y]))"
proof -
  have a: "filter P xs = filter P (take i xs) @ filter P (drop (Suc i) xs)"
    using assms by (subst id_take_nth_drop[OF assms(1)]) simp
  have b: "filter P (xs[i := y]) = filter P (take i xs) @ filter P [y] @ filter P (drop (Suc i) xs)"
    using assms(1) by (simp add: upd_conv_take_nth_drop)
  show ?thesis unfolding a b
    by (intro list_emb_append_mono) (simp_all add: list_emb_append2)
qed

lemma solve_line_keeps:
  assumes "solve_line f cfg s i = Inr s'" "lengths_asserted s"
  shows "k_points s' = k_points s \<and> neighbour_check s' = neighbour_check s
     \<and> lengths_asserted s' \<and> subseq (solved_lines s) (solved_lines s')
     \<and> (\<exists>l. lines s' = (lines s)[i := l])"
proof (cases "string_status s ! i")
  case True
  with assms(1) have "s' = s"
    by (auto simp: solve_line_def py_get_def split: if_splits)
  moreover have "lines s = (lines s)[i := lines s ! i]" by simp
  ultimately show ?thesis using assms(2) by blast
next
  case False
  from assms(1) False obtain w g where s': "s' = s\<lparr> wcc_list := (wcc_list s)[i := w],
      gaps := (gaps s)[i := Some g], string_status := (string_status s)[i := True] \<rparr>"
    and i: "i < length (string_status s)"
    by (auto simp: solve_line_def py_get_def split: if_splits sum.splits)
  have n: "length (wcc_list s) = length (k_points s)" "length (gaps s) = length (k_points s)"
    "length (string_status s) = length (k_points s)"
    using assms(2) by (simp_all add: lengths_asserted_def)
  have "lines s' = zip ((k_points s)[i := k_points s ! i])
      (zip ((wcc_list s)[i := w]) (zip ((gaps s)[i := Some g]) ((string_status s)[i := True])))"
    by (simp add: lines_def s')
  also have "\<dots> = (lines s)[i := (k_points s ! i, w, Some g, True)]"
    by (simp only: zip_update lines_def)
  finally have l: "lines s' = (lines s)[i := (k_points s ! i, w, Some g, True)]" .
  have il: "i < length (lines s)" using i n by (simp add: lines_def)
  have "\<not> snd (snd (snd (lines s ! i)))" using False i n by (simp add: lines_def)
  with il have "subseq (solved_lines s) (solved_lines s')"
    unfolding solved_lines_def l by (rule subseq_filter_update)
  moreover have "\<exists>l'. lines s' = (lines s)[i := l']" using l by blast
  ultimately show ?thesis
    using solve_line_props(1,2)[OF assms(1)] solve_line_lengths[OF assms] by simp
qed

lemma subseq_solved_lines:
  "subseq (lines s) (lines s') \<Longrightarrow> subseq (solved_lines s) (solved_lines s')"
  unfolding solved_lines_def by (rule subseq_filter)

lemma wcc_step_props:
  assumes "wcc_step fl f cfg s s'" "lengths_asserted s"
  shows "lengths_asserted s' \<and> length (k_points s) \<le> length (k_points s')
     \<and> subseq (k_points s) (k_points s')
     \<and> subseq (solved_lines s) (solved_lines s')
     \<and> list_emb (\<lambda>b b'. b \<longrightarrow> b') (neighbour_check s) (neighbour_check s')"
  using assms
proof (cases rule: wcc_step.cases)
  case (solved i)
  have "list_emb (\<lambda>b b'. b \<longrightarrow> b') (neighbour_check s) (neighbour_check s)"
    by (rule list_emb_refl) simp
  with solve_line_keeps[OF solved assms(2)] show ?thesis by simp
next
  case (checked b)
  from check_from_keeps[OF checked[unfolded check_neighbours_def] assms(2)]
  show ?thesis by (simp add: subseq_solved_lines)
qed

lemma wcc_reachable_lengths:
  "wcc_reachable fl f cfg s \<Longrightarrow> 2 \<le> num_strings cfg \<Longrightarrow> lengths_asserted s"
  by (induction rule: wcc_reachable.induct) (auto simp: lengths_asserted_init wcc_step_props)

text \<open>
  C9. In every state that \<^verbatim>\<open>wcc_calc\<close> reaches, the four asserted length equations
  hold, in particular \<open>len(neighbour_check) = len(k_points) - 1\<close>. Every step from such a
  state, the solving of a line or a call of \<^verbatim>\<open>_check_neighbours\<close>, keeps the length
  equations, keeps all positions in their order (\<open>k_points\<close> never gets shorter), keeps
  every solved line with its position, its WCC, its gap and its status, and keeps every
  flag in its order, a set flag staying set. A call of \<^verbatim>\<open>_check_neighbours\<close> keeps every
  line as it is, solved or not, and adds at most one; solving line \<open>i\<close> changes no
  position, no flag and no line but line \<open>i\<close>.
\<close>

theorem wcc_calc_lengths_invariant:
  assumes "2 \<le> num_strings cfg" "wcc_reachable fl f cfg s"
  shows "lengths_asserted s
     \<and> int (length (neighbour_check s)) = int (length (k_points s)) - 1
     \<and> (\<forall>s'. wcc_step fl f cfg s s' \<longrightarrow>
           lengths_asserted s'
           \<and> length (k_points s) \<le> length (k_points s') \<and> subseq (k_points s) (k_points s')
           \<and> subseq (solved_lines s) (solved_lines s')
           \<and> list_emb (\<lambda>b b'. b \<longrightarrow> b') (neighbour_check s) (neighbour_check s'))
     \<and> (\<forall>s' b. check_neighbours fl cfg s = Inr (s', b) \<longrightarrow>
           subseq (lines s) (lines s') \<and> length (k_points s') \<le> length (k_points s) + 1)
     \<and> (\<forall>s' i. solve_line f cfg s i = Inr s' \<longrightarrow>
           k_points s' = k_points s \<and> neighbour_check s' = neighbour_check s
           \<and> (\<exists>l. lines s' = (lines s)[i := l]))"
proof -
  note l = wcc_reachable_lengths[OF assms(2,1)]
  have "int (length (neighbour_check s)) = int (length (k_points s)) - 1"
    using l by (simp add: lengths_asserted_def)
  moreover have "\<forall>s'. wcc_step fl f cfg s s' \<longrightarrow>
           lengths_asserted s'
           \<and> length (k_points s) \<le> length (k_points s') \<and> subseq (k_points s) (k_points s')
           \<and> subseq (solved_lines s) (solved_lines s')
           \<and> list_emb (\<lambda>b b'. b \<longrightarrow> b') (neighbour_check s) (neighbour_check s')"
    using wcc_step_props[OF _ l] by blast
  moreover have "\<forall>s' b. check_neighbours fl cfg s = Inr (s', b) \<longrightarrow>
           subseq (lines s) (lines s') \<and> length (k_points s') \<le> length (k_points s) + 1"
    using check_from_keeps[OF _ l] unfolding check_neighbours_def by blast
  moreover have "\<forall>s' i. solve_line f cfg s i = Inr s' \<longrightarrow>
           k_points s' = k_points s \<and> neighbour_check s' = neighbour_check s
           \<and> (\<exists>l. lines s' = (lines s)[i := l])"
    using solve_line_keeps[OF _ l] by blast
  ultimately show ?thesis using l by blast
qed

subsection \<open>Skipping the neighbour checks quietly\<close>

lemma solve_line_ok:
  assumes "lengths_asserted s" "i < length (k_points s)"
    and "\<forall>kx. \<exists>w g. getwcc f cfg kx = Inr w \<and> gapfind w = Inr g"
  shows "\<exists>s'. solve_line f cfg s i = Inr s'"
proof -
  obtain w g where "getwcc f cfg (k_points s ! i) = Inr w" "gapfind w = Inr g"
    using assms(3) by blast
  then show ?thesis
    using assms(1,2) by (simp add: solve_line_def py_get_def lengths_asserted_def)
qed

lemma solve_lines_ok:
  assumes "\<forall>kx. \<exists>w g. getwcc f cfg kx = Inr w \<and> gapfind w = Inr g"
  shows "lengths_asserted s \<Longrightarrow> \<forall>i\<in>set is. i < length (k_points s) \<Longrightarrow>
     \<exists>s'. solve_lines f cfg is s = Inr s'"
proof (induction "is" arbitrary: s)
  case Nil
  show ?case by simp
next
  case (Cons i "is")
  then obtain s1 where s1: "solve_line f cfg s i = Inr s1"
    using solve_line_ok[OF _ _ assms, of s i] by auto
  have "lengths_asserted s1" "\<forall>i\<in>set is. i < length (k_points s1)"
    using solve_line_lengths[OF s1] solve_line_props(1)[OF s1] Cons.prems by simp_all
  from Cons.IH[OF this] s1 show ?case by simp
qed

lemma wcc_loop_never_returns:
  assumes "wcc_loop fl f cfg s = Some y"
  shows "\<not> (no_neighbour_check cfg \<and> \<not> verbose cfg
        \<and> (\<forall>kx. \<exists>w g. getwcc f cfg kx = Inr w \<and> gapfind w = Inr g)
        \<and> lengths_asserted s \<and> \<not> list_all (\<lambda>b. b) (neighbour_check s))"
proof (rule wcc_loop.raw_induct[where P = "\<lambda>fl f cfg s y.
      \<not> (no_neighbour_check cfg \<and> \<not> verbose cfg
        \<and> (\<forall>kx. \<exists>w g. getwcc f cfg kx = Inr w \<and> gapfind w = Inr g)
        \<and> lengths_asserted s \<and> \<not> list_all (\<lambda>b. b) (neighbour_check s))", OF _ assms],
    goal_cases)
  case (1 loop fl f cfg s y)
  show ?case
  proof
    assume a: "no_neighbour_check cfg \<and> \<not> verbose cfg
        \<and> (\<forall>kx. \<exists>w g. getwcc f cfg kx = Inr w \<and> gapfind w = Inr g)
        \<and> lengths_asserted s \<and> \<not> list_all (\<lambda>b. b) (neighbour_check s)"
    then have ok: "\<forall>kx. \<exists>w g. getwcc f cfg kx = Inr w \<and> gapfind w = Inr g"
      and l: "lengths_asserted s" by simp_all
    obtain s1 where s1: "solve_pass f cfg s = Inr s1"
      using solve_lines_ok[OF ok l, of "[0..<length (k_points s)]"]
      by (auto simp: solve_pass_def)
    note sp = solve_pass_props[OF s1 l]
    from 1(2) a s1 have "loop fl f cfg s1 = Some y" by simp
    then have "\<not> (no_neighbour_check cfg \<and> \<not> verbose cfg
        \<and> (\<forall>kx. \<exists>w g. getwcc f cfg kx = Inr w \<and> gapfind w = Inr g)
        \<and> lengths_asserted s1 \<and> \<not> list_all (\<lambda>b. b) (neighbour_check s1))"
      by (rule 1(1))
    moreover have "lengths_asserted s1 \<and> \<not> list_all (\<lambda>b. b) (neighbour_check s1)"
      using a sp by simp
    ultimately show False using a by blast
  qed
qed

lemma convcheck_constant: "convcheck skip_quiet_config [1 / 4, 3 / 4] [1 / 4, 3 / 4] = Inr True"
  by code_simp

lemma getwcc_constant: "getwcc constant_provider skip_quiet_config kx = Inr [1 / 4, 3 / 4]"
proof -
  have "getwcc_iter constant_provider skip_quiet_config kx 8 0 [1 / 4, 3 / 4] 1
      = Inr ([1 / 4, 3 / 4], [1 / 4, 3 / 4], 1, Finished)"
    by (subst getwcc_iter.simps) (simp add: constant_provider_def convcheck_constant)
  then show ?thesis
    by (simp add: getwcc_def constant_provider_def skip_quiet_config_def defaults_def)
qed

lemma gapfind_constant: "gapfind [1 / 4, 3 / 4] = Inr (1 / 2)"
  by code_simp

text \<open>With \<^verbatim>\<open>verbose = True\<close> the loop is left after one pass: eleven lines, no flag set.\<close>

lemma wcc_calc_skip_verbose:
  "map_option (map_sum id (\<lambda>s. (length (k_points s), neighbour_check s)))
     (wcc_calc (\<lambda>x. x) constant_provider (defaults\<lparr> no_neighbour_check := True \<rparr>))
   = Some (Inr (11, replicate 10 False))"
  by code_simp

text \<open>
  C4. With \<^verbatim>\<open>no_neighbour_check\<close> set, \<^verbatim>\<open>wcc_calc\<close> should stop after one pass whatever
  \<^verbatim>\<open>verbose\<close> is. The \<^verbatim>\<open>break\<close> of line 171 is inside \<^verbatim>\<open>if(self._verbose)\<close>: with
  \<^verbatim>\<open>verbose = False\<close> the loop is never left, as no flag is ever set. Here for the
  defaults otherwise and a provider that gives \<open>[1/4, 3/4]\<close> everywhere.
\<close>

theorem wcc_calc_skip_quiet_diverges: "wcc_calc fl constant_provider skip_quiet_config = None"
proof -
  have n: "num_strings skip_quiet_config = 11" "no_neighbour_check skip_quiet_config"
    "\<not> verbose skip_quiet_config"
    by (simp_all add: skip_quiet_config_def defaults_def)
  have ok: "\<forall>kx. \<exists>w g. getwcc constant_provider skip_quiet_config kx = Inr w \<and> gapfind w = Inr g"
    using getwcc_constant gapfind_constant by blast
  have l: "lengths_asserted (init_state fl skip_quiet_config)"
    by (rule lengths_asserted_init) (simp add: n)
  have nf: "\<not> list_all (\<lambda>b. b) (neighbour_check (init_state fl skip_quiet_config))"
    by (simp add: init_state_def n list_all_iff)
  have "wcc_loop fl constant_provider skip_quiet_config (init_state fl skip_quiet_config) = None"
  proof (cases "wcc_loop fl constant_provider skip_quiet_config (init_state fl skip_quiet_config)")
    case None
    then show ?thesis .
  next
    case (Some y)
    from wcc_loop_never_returns[OF Some] n(2,3) ok l nf show ?thesis by blast
  qed
  then show ?thesis by (simp add: wcc_calc_def n)
qed

subsection \<open>The result of the loop is a reachable state\<close>

lemma solve_lines_reachable:
  "solve_lines f cfg is s = Inr s' \<Longrightarrow> wcc_reachable fl f cfg s \<Longrightarrow> wcc_reachable fl f cfg s'"
proof (induction "is" arbitrary: s)
  case Nil
  then show ?case by simp
next
  case (Cons i "is")
  then obtain s1 where s1: "solve_line f cfg s i = Inr s1" "solve_lines f cfg is s1 = Inr s'"
    by (auto split: sum.splits)
  have "wcc_reachable fl f cfg s1"
    using Cons.prems(2) wcc_step.solved[OF s1(1)] by (rule wcc_reachable.step)
  with Cons.IH[OF s1(2)] show ?case .
qed

lemma wcc_loop_reachable:
  assumes "wcc_loop fl f cfg s = Some y"
  shows "wcc_reachable fl f cfg s \<longrightarrow> (\<forall>s'. y = Inr s' \<longrightarrow> wcc_reachable fl f cfg s')"
proof (rule wcc_loop.raw_induct[where P = "\<lambda>fl f cfg s y.
      wcc_reachable fl f cfg s \<longrightarrow> (\<forall>s'. y = Inr s' \<longrightarrow> wcc_reachable fl f cfg s')", OF _ assms],
    goal_cases)
  case (1 loop fl f cfg s y)
  show ?case
  proof (intro impI allI)
    fix s' assume r: "wcc_reachable fl f cfg s" and y: "y = Inr s'"
    show "wcc_reachable fl f cfg s'"
    proof (cases "list_all (\<lambda>b. b) (neighbour_check s)")
      case True
      with 1(2) y r show ?thesis by simp
    next
      case False
      with 1(2) y obtain s1 where s1: "solve_pass f cfg s = Inr s1"
        by (cases "solve_pass f cfg s") auto
      have r1: "wcc_reachable fl f cfg s1"
        using s1 r unfolding solve_pass_def by (rule solve_lines_reachable)
      show ?thesis
      proof (cases "no_neighbour_check cfg")
        case True
        show ?thesis
        proof (cases "verbose cfg")
          case True
          with 1(2) False s1 \<open>no_neighbour_check cfg\<close> y r1 show ?thesis by simp
        next
          case nv: False
          with 1(2) False s1 True have "loop fl f cfg s1 = Some y" by simp
          from 1(1)[OF this] r1 y show ?thesis by blast
        qed
      next
        case nc: False
        with 1(2) False s1 y obtain s2 b where c: "check_neighbours fl cfg s1 = Inr (s2, b)"
          by (cases "check_neighbours fl cfg s1") auto
        have r2: "wcc_reachable fl f cfg s2"
          using r1 wcc_step.checked[OF c] by (rule wcc_reachable.step)
        from 1(2) False s1 nc c have "loop fl f cfg s2 = Some y" by simp
        from 1(1)[OF this] r2 y show ?thesis by blast
      qed
    qed
  qed
qed

lemma wcc_calc_result_reachable:
  "wcc_calc fl f cfg = Some (Inr s) \<Longrightarrow> wcc_reachable fl f cfg s"
  using wcc_loop_reachable[of fl f cfg "init_state fl cfg" "Inr s"] wcc_reachable.initial[of fl f cfg]
  by (auto simp: wcc_calc_def split: if_splits)

subsection \<open>A run with one bisection\<close>


lemma solve_pass_bisect:
  "solve_pass bisect_provider bisect_config (init_state (\<lambda>x. x) bisect_config) = Inr bisect_solved"
  by code_simp

lemma check_neighbours_bisect:
  "check_neighbours (\<lambda>x. x) bisect_config bisect_solved = Inr (bisect_inserted, False)"
  by code_simp

lemma wcc_reachable_bisect_solved:
  "wcc_reachable (\<lambda>x. x) bisect_provider bisect_config bisect_solved"
  using solve_pass_bisect[unfolded solve_pass_def] wcc_reachable.initial
  by (rule solve_lines_reachable)


theorem wcc_calc_lengths_invariant_witness:
  "2 \<le> num_strings bisect_config
   \<and> wcc_reachable (\<lambda>x. x) bisect_provider bisect_config bisect_solved
   \<and> check_neighbours (\<lambda>x. x) bisect_config bisect_solved = Inr (bisect_inserted, False)
   \<and> lengths_asserted bisect_solved \<and> lengths_asserted bisect_inserted
   \<and> int (length (neighbour_check bisect_solved)) = int (length (k_points bisect_solved)) - 1
   \<and> subseq (lines bisect_solved) (lines bisect_inserted)
   \<and> subseq (solved_lines bisect_solved) (solved_lines bisect_inserted)
   \<and> list_emb (\<lambda>b b'. b \<longrightarrow> b') (neighbour_check bisect_solved) (neighbour_check bisect_inserted)
   \<and> length (k_points bisect_solved) = 8 \<and> length (k_points bisect_inserted) = 9"
proof -
  have n: "2 \<le> num_strings bisect_config" by (simp add: bisect_config_def defaults_def)
  note t = wcc_calc_lengths_invariant [OF n wcc_reachable_bisect_solved]
  have s: "wcc_step (\<lambda>x. x) bisect_provider bisect_config bisect_solved bisect_inserted"
    using check_neighbours_bisect by (rule wcc_step.checked)
  have "length (k_points bisect_solved) = 8" "length (k_points bisect_inserted) = 9"
    by (simp_all add: bisect_solved_def bisect_inserted_def)
  with t s n wcc_reachable_bisect_solved check_neighbours_bisect show ?thesis by blast
qed

end
